theory Spec2Isabelle
  imports Main "HOL-Library.Word" "HOL-Library.Sublist"
begin

section \<open>Strings and numbers of the host language\<close>

text \<open>
  A JavaScript string is a sequence of 16-bit code units. Literals of the source are written
  with \<open>lit\<close>, which maps each ASCII character to its code unit.
\<close>

type_synonym js_string = "16 word list"

definition lit :: "string \<Rightarrow> js_string" where
  "lit s = map (\<lambda>c. of_nat (of_char c)) s"

text \<open>
  \<open>String.prototype.trim\<close> removes WhiteSpace and LineTerminator code points from both ends:
  TAB, LF, VT, FF, CR, SP, NBSP, the other space separators (category Zs), LS, PS and the
  byte order mark.
\<close>

definition is_trim_space :: "16 word \<Rightarrow> bool" where
  "is_trim_space c \<longleftrightarrow>
     c = 0x09 \<or> c = 0x0A \<or> c = 0x0B \<or> c = 0x0C \<or> c = 0x0D \<or> c = 0x20 \<or> c = 0xA0 \<or>
     c = 0x1680 \<or> (0x2000 \<le> c \<and> c \<le> 0x200A) \<or> c = 0x2028 \<or> c = 0x2029 \<or>
     c = 0x202F \<or> c = 0x205F \<or> c = 0x3000 \<or> c = 0xFEFF"

definition trim :: "js_string \<Rightarrow> js_string" where
  "trim s = rev (dropWhile is_trim_space (rev (dropWhile is_trim_space s)))"

text \<open>
  Conversion of a number to a string, for the numbers this program converts: the length of an
  array, a count, and an id read from \<open>Date.now()\<close>. All of them are integers, printed in
  decimal (the exponent notation of magnitudes from \<open>10^21\<close> on is never reached by a
  millisecond clock).
\<close>

fun digits_of :: "nat \<Rightarrow> js_string" where
  "digits_of n =
     (if n < 10 then [of_nat (48 + n)]
      else digits_of (n div 10) @ [of_nat (48 + n mod 10)])"

declare digits_of.simps [simp del]

definition Number_toString :: "int \<Rightarrow> js_string" where
  "Number_toString i = (if i < 0 then 0x2D # digits_of (nat (- i)) else digits_of (nat i))"


section \<open>The opportunity record and its card\<close>

text \<open>
  The object literal of \<open>handleAddOpportunity\<close>: \<open>{id, title, category, saved}\<close>.
  The field \<open>id\<close> is named \<open>id_num\<close> here.
\<close>

record opportunity =
  id_num :: int
  title :: js_string
  category :: js_string
  saved :: bool

text \<open>
  \<open>escapeHTML\<close> puts the string into a text node under a fresh \<open>p\<close> element and reads
  \<open>innerHTML\<close> back. The serialisation of a text node replaces \<open>&\<close>, no-break space,
  \<open><\<close> and \<open>>\<close> by \<open>&amp;\<close>, \<open>&nbsp;\<close>, \<open>&lt;\<close> and \<open>&gt;\<close>, and copies every other
  code unit.
\<close>

definition escape_unit :: "16 word \<Rightarrow> js_string" where
  "escape_unit c =
     (if c = 0x26 then lit ''&amp;''
      else if c = 0xA0 then lit ''&nbsp;''
      else if c = 0x3C then lit ''&lt;''
      else if c = 0x3E then lit ''&gt;''
      else [c])"

definition escapeHTML :: "js_string \<Rightarrow> js_string" where
  "escapeHTML str = concat (map escape_unit str)"

text \<open>
  A card is the \<open>div\<close> built by \<open>createOpportunityCard\<close>: its class, its \<open>data-id\<close>
  attribute and the markup assigned to \<open>innerHTML\<close> (the template literal, line breaks and
  indentation included).
\<close>

record card =
  className :: js_string
  dataset_id :: js_string
  innerHTML :: js_string

definition createOpportunityCard :: "opportunity \<Rightarrow> card" where
  \<open>createOpportunityCard opportunity =
     (let buttonText = (if saved opportunity then lit ''Remove'' else lit ''Save'');
          buttonClass = (if saved opportunity then lit ''card-action-btn remove-btn''
                         else lit ''card-action-btn save-btn'')
      in \<lparr> className = lit ''opportunity-card'',
           dataset_id = Number_toString (id_num opportunity),
           innerHTML =
             lit ''\<newline>        <h3>'' @ escapeHTML (title opportunity) @
             lit ''</h3>\<newline>        <p class="card-details">Category: '' @
             escapeHTML (category opportunity) @
             lit ''</p>\<newline>        <button class="'' @ buttonClass @ lit ''">'' @
             buttonText @ lit ''</button>\<newline>    '' \<rparr>)\<close>


section \<open>Serialisation of the list\<close>

text \<open>
  \<open>JSON.stringify\<close> on the value \<open>saveToStorage\<close> passes to it: an array of objects with
  the four properties in the order of the object literal, without white space. Strings are
  quoted by \<open>QuoteJSONString\<close>: the quote, the backslash and the control characters are
  escaped, a surrogate code unit outside a pair is written as a \<open>\u\<close> escape, and every
  other code unit is copied.
\<close>

definition hex_digit :: "nat \<Rightarrow> 16 word" where
  "hex_digit n = (if n < 10 then of_nat (48 + n) else of_nat (87 + n))"

definition UnicodeEscape :: "16 word \<Rightarrow> js_string" where
  "UnicodeEscape c =
     (let n = unat c
      in [0x5C, 0x75, hex_digit (n div 4096), hex_digit (n div 256 mod 16),
          hex_digit (n div 16 mod 16), hex_digit (n mod 16)])"

definition is_leading_surrogate :: "16 word \<Rightarrow> bool" where
  "is_leading_surrogate c \<longleftrightarrow> 0xD800 \<le> c \<and> c \<le> 0xDBFF"

definition is_trailing_surrogate :: "16 word \<Rightarrow> bool" where
  "is_trailing_surrogate c \<longleftrightarrow> 0xDC00 \<le> c \<and> c \<le> 0xDFFF"

fun quote_units :: "js_string \<Rightarrow> js_string" where
  "quote_units [] = []"
| "quote_units (c # cs) =
     (if c = 0x08 then [0x5C, 0x62] @ quote_units cs
      else if c = 0x09 then [0x5C, 0x74] @ quote_units cs
      else if c = 0x0A then [0x5C, 0x6E] @ quote_units cs
      else if c = 0x0C then [0x5C, 0x66] @ quote_units cs
      else if c = 0x0D then [0x5C, 0x72] @ quote_units cs
      else if c = 0x22 then [0x5C, 0x22] @ quote_units cs
      else if c = 0x5C then [0x5C, 0x5C] @ quote_units cs
      else if c < 0x20 then UnicodeEscape c @ quote_units cs
      else if is_leading_surrogate c then
        (case cs of
           [] \<Rightarrow> UnicodeEscape c
         | d # ds \<Rightarrow>
             if is_trailing_surrogate d then c # d # quote_units ds
             else UnicodeEscape c @ quote_units cs)
      else if is_trailing_surrogate c then UnicodeEscape c @ quote_units cs
      else c # quote_units cs)"

definition QuoteJSONString :: "js_string \<Rightarrow> js_string" where
  "QuoteJSONString s = [0x22] @ quote_units s @ [0x22]"

definition stringify_opportunity :: "opportunity \<Rightarrow> js_string" where
  \<open>stringify_opportunity r =
     lit ''{"id":'' @ Number_toString (id_num r) @
     lit '',"title":'' @ QuoteJSONString (title r) @
     lit '',"category":'' @ QuoteJSONString (category r) @
     lit '',"saved":'' @ (if saved r then lit ''true'' else lit ''false'') @
     lit ''}''\<close>

fun join_comma :: "js_string list \<Rightarrow> js_string" where
  "join_comma [] = []"
| "join_comma [x] = x"
| "join_comma (x # y # ys) = x @ [0x2C] @ join_comma (y # ys)"

definition JSON_stringify :: "opportunity list \<Rightarrow> js_string" where
  "JSON_stringify ops = [0x5B] @ join_comma (map stringify_opportunity ops) @ [0x5D]"


section \<open>The application state\<close>

text \<open>
  The module variables \<open>opportunities\<close> and \<open>currentFilter\<close>, the item of local storage
  under \<open>STORAGE_KEY\<close> (\<open>None\<close> when \<open>getItem\<close> returns \<open>null\<close>), and the parts of the
  page the script reads and writes: the two inputs, the children of the two list containers,
  the text of the counter, the text and the \<open>display\<close> style of the error region, and the
  filter buttons with their \<open>data-filter\<close> value and whether they carry the class
  \<open>active\<close>. \<open>listening\<close> records that \<open>setupEventListeners\<close> has run.
\<close>

record filter_btn =
  dataset_filter :: js_string
  active :: bool

record state =
  opportunities :: "opportunity list"
  currentFilter :: js_string
  storage :: "js_string option"
  titleInput :: js_string
  typeInput :: js_string
  availableList :: "card list"
  savedList :: "card list"
  counterSpan :: js_string
  errorText :: js_string
  errorDisplay :: js_string
  filterButtons :: "filter_btn list"
  listening :: bool

definition showError :: "js_string \<Rightarrow> state \<Rightarrow> state" where
  "showError message s = s\<lparr>errorText := message, errorDisplay := lit ''block''\<rparr>"

definition hideError :: "state \<Rightarrow> state" where
  "hideError s = s\<lparr>errorDisplay := lit ''none''\<rparr>"

definition updateCounter :: "state \<Rightarrow> state" where
  "updateCounter s =
     (let savedCount = length (filter saved (opportunities s))
      in s\<lparr>counterSpan :=
             Number_toString (int (length (opportunities s))) @ lit '' opportunities ('' @
             Number_toString (int savedCount) @ lit '' saved)''\<rparr>)"

definition updateActiveFilter :: "state \<Rightarrow> state" where
  "updateActiveFilter s =
     s\<lparr>filterButtons :=
         map (\<lambda>btn. btn\<lparr>active := (dataset_filter btn = currentFilter s)\<rparr>) (filterButtons s)\<rparr>"

text \<open>
  The loop of \<open>render\<close> over the filtered records: each card is appended to the saved or to
  the available container.
\<close>

fun render_loop :: "opportunity list \<Rightarrow> card list \<times> card list \<Rightarrow> card list \<times> card list" where
  "render_loop [] (av, sv) = (av, sv)"
| "render_loop (opp # rest) (av, sv) =
     (let cardElement = createOpportunityCard opp
      in if saved opp then render_loop rest (av, sv @ [cardElement])
         else render_loop rest (av @ [cardElement], sv))"

definition filteredOpportunities :: "state \<Rightarrow> opportunity list" where
  "filteredOpportunities s =
     filter (\<lambda>opp. if currentFilter s = lit ''all'' then True else category opp = currentFilter s)
       (opportunities s)"

definition render :: "state \<Rightarrow> state" where
  "render s =
     (case render_loop (filteredOpportunities s) ([], []) of
        (av, sv) \<Rightarrow> updateActiveFilter (updateCounter (s\<lparr>availableList := av, savedList := sv\<rparr>)))"

text \<open>
  \<open>localStorage.setItem\<close> replaces the item. (A write refused by the browser, such as a
  full quota, is outside this model.)
\<close>

definition saveToStorage :: "state \<Rightarrow> state" where
  "saveToStorage s = s\<lparr>storage := Some (JSON_stringify (opportunities s))\<rparr>"

definition saveAndRender :: "state \<Rightarrow> state" where
  "saveAndRender s = render (saveToStorage s)"

text \<open>
  \<open>handleAddOpportunity\<close>; \<open>now\<close> is the value \<open>Date.now()\<close> returns when the call reaches
  it. A rejected add returns before it reads the clock, and \<open>now\<close> is not used.
\<close>

definition handleAddOpportunity :: "int \<Rightarrow> state \<Rightarrow> state" where
  "handleAddOpportunity now s =
     (let title' = trim (titleInput s);
          type = typeInput s
      in if title' = [] then showError (lit ''Opportunity title cannot be empty.'') s
         else
           (let s1 = hideError s;
                newOpportunity = \<lparr> id_num = now, title = title', category = type, saved = False \<rparr>;
                s2 = s1\<lparr>opportunities := opportunities s1 @ [newOpportunity]\<rparr>;
                s3 = s2\<lparr>titleInput := []\<rparr>
            in saveAndRender s3))"

text \<open>
  \<open>toggleSavedStatus\<close>: \<open>find\<close> returns the first record with the id, and the assignment
  changes that record inside the array.
\<close>

fun flip_first :: "int \<Rightarrow> opportunity list \<Rightarrow> opportunity list" where
  "flip_first i [] = []"
| "flip_first i (opp # rest) =
     (if id_num opp = i then opp\<lparr>saved := \<not> saved opp\<rparr> # rest else opp # flip_first i rest)"

definition toggleSavedStatus :: "int \<Rightarrow> state \<Rightarrow> state" where
  "toggleSavedStatus i s =
     (case find (\<lambda>opp. id_num opp = i) (opportunities s) of
        None \<Rightarrow> s
      | Some opportunity \<Rightarrow> saveAndRender (s\<lparr>opportunities := flip_first i (opportunities s)\<rparr>))"

text \<open>
  The listeners of \<open>setupEventListeners\<close>, as the events they react to: a click on the add
  button at clock reading \<open>now\<close>, a click on the action button of a card whose \<open>data-id\<close>
  reads as \<open>i\<close>, and a click on a filter button with \<open>data-filter\<close> \<open>f\<close>. The user's typing
  into the two inputs is an event as well.
\<close>

datatype event =
    AddClick int
  | CardActionClick int
  | FilterClick js_string
  | TitleTyped js_string
  | TypeSelected js_string

fun dispatch :: "event \<Rightarrow> state \<Rightarrow> state" where
  "dispatch (AddClick now) s = handleAddOpportunity now s"
| "dispatch (CardActionClick i) s = toggleSavedStatus i s"
| "dispatch (FilterClick f) s = render (s\<lparr>currentFilter := f\<rparr>)"
| "dispatch (TitleTyped t) s = s\<lparr>titleInput := t\<rparr>"
| "dispatch (TypeSelected t) s = s\<lparr>typeInput := t\<rparr>"

definition run :: "event list \<Rightarrow> state \<Rightarrow> state" where
  "run evs s = fold dispatch evs s"

definition setupEventListeners :: "state \<Rightarrow> state" where
  "setupEventListeners s = s\<lparr>listening := True\<rparr>"


section \<open>Reading the stored item back\<close>

text \<open>
  The values \<open>JSON.parse\<close> returns. A number written without fraction and exponent is kept
  as its integer value (exact in JavaScript up to \<open>2^53\<close>, far above any reading of a
  millisecond clock); any other number is kept as its text, its floating-point value is not
  modelled. The members of an object are in the order of their first appearance, a later
  member of the same name replacing the value of the earlier one.
\<close>

datatype json =
    JNull
  | JBool bool
  | JNumber int
  | JFraction js_string
  | JString js_string
  | JArray "json list"
  | JObject "(js_string \<times> json) list"

text \<open>
  The result of parsing a prefix of a text: the value and the rest of the text, a syntax
  error, or an exhausted recursion budget. The budget \<open>JSON_parse\<close> starts with is never
  exhausted (\<open>parse_value_fuel\<close> below).
\<close>

datatype 'a parse = Fuel | Bad | Got 'a js_string

definition is_json_ws :: "16 word \<Rightarrow> bool" where
  "is_json_ws c \<longleftrightarrow> c = 0x20 \<or> c = 0x09 \<or> c = 0x0A \<or> c = 0x0D"

definition skip_ws :: "js_string \<Rightarrow> js_string" where
  "skip_ws s = dropWhile is_json_ws s"

text \<open>
  The characters of a string after its opening quote, up to the closing quote: the escapes
  of the JSON grammar are decoded, and a raw control character is a syntax error.
\<close>

definition hex_val :: "16 word \<Rightarrow> nat option" where
  "hex_val c =
     (if 0x30 \<le> c \<and> c \<le> 0x39 then Some (unat c - 48)
      else if 0x61 \<le> c \<and> c \<le> 0x66 then Some (unat c - 87)
      else if 0x41 \<le> c \<and> c \<le> 0x46 then Some (unat c - 55)
      else None)"

definition unescape :: "16 word \<Rightarrow> 16 word option" where
  "unescape e =
     (if e = 0x22 then Some 0x22
      else if e = 0x5C then Some 0x5C
      else if e = 0x2F then Some 0x2F
      else if e = 0x62 then Some 0x08
      else if e = 0x66 then Some 0x0C
      else if e = 0x6E then Some 0x0A
      else if e = 0x72 then Some 0x0D
      else if e = 0x74 then Some 0x09
      else None)"

definition push_unit :: "16 word \<Rightarrow> (js_string \<times> js_string) option \<Rightarrow> (js_string \<times> js_string) option" where
  "push_unit u res = (case res of None \<Rightarrow> None | Some (str, r) \<Rightarrow> Some (u # str, r))"

fun parse_chars :: "js_string \<Rightarrow> (js_string \<times> js_string) option" where
  "parse_chars [] = None"
| "parse_chars (c # cs) =
     (if c = 0x22 then Some ([], cs)
      else if c = 0x5C then
        (case cs of
           [] \<Rightarrow> None
         | e # es \<Rightarrow>
             if e = 0x75 then
               (case es of
                  h1 # h2 # h3 # h4 # rest \<Rightarrow>
                    (case (hex_val h1, hex_val h2, hex_val h3, hex_val h4) of
                       (Some a, Some b, Some c', Some d) \<Rightarrow>
                         push_unit (of_nat (((a * 16 + b) * 16 + c') * 16 + d)) (parse_chars rest)
                     | _ \<Rightarrow> None)
                | _ \<Rightarrow> None)
             else
               (case unescape e of
                  None \<Rightarrow> None
                | Some u \<Rightarrow> push_unit u (parse_chars es)))
      else if c < 0x20 then None
      else push_unit c (parse_chars cs))"

definition is_digit :: "16 word \<Rightarrow> bool" where
  "is_digit c \<longleftrightarrow> 0x30 \<le> c \<and> c \<le> 0x39"

definition digits_value :: "js_string \<Rightarrow> nat" where
  "digits_value ds = foldl (\<lambda>a c. 10 * a + (unat c - 48)) 0 ds"

text \<open>
  A number: an optional minus sign, an integer part (a single \<open>0\<close>, or digits that do not
  start with \<open>0\<close>), an optional fraction and an optional exponent.
\<close>

definition int_part :: "js_string \<Rightarrow> (js_string \<times> js_string) option" where
  "int_part s =
     (case s of
        [] \<Rightarrow> None
      | c # cs \<Rightarrow>
          if c = 0x30 then Some ([c], cs)
          else if is_digit c then Some (takeWhile is_digit s, dropWhile is_digit s)
          else None)"

definition frac_part :: "js_string \<Rightarrow> (bool \<times> js_string) option" where
  "frac_part s =
     (case s of
        [] \<Rightarrow> Some (False, s)
      | c # cs \<Rightarrow>
          if c = 0x2E then
            (if takeWhile is_digit cs = [] then None else Some (True, dropWhile is_digit cs))
          else Some (False, s))"

definition exp_part :: "js_string \<Rightarrow> (bool \<times> js_string) option" where
  "exp_part s =
     (case s of
        [] \<Rightarrow> Some (False, s)
      | c # cs \<Rightarrow>
          if c = 0x65 \<or> c = 0x45 then
            (let ds = (case cs of [] \<Rightarrow> cs | g # gs \<Rightarrow> if g = 0x2B \<or> g = 0x2D then gs else cs)
             in if takeWhile is_digit ds = [] then None else Some (True, dropWhile is_digit ds))
          else Some (False, s))"

definition parse_number :: "js_string \<Rightarrow> (json \<times> js_string) option" where
  "parse_number s =
     (let neg = (case s of [] \<Rightarrow> False | c # cs \<Rightarrow> c = 0x2D);
          s1 = (if neg then tl s else s)
      in case int_part s1 of
           None \<Rightarrow> None
         | Some (ds, r1) \<Rightarrow>
             (case frac_part r1 of
                None \<Rightarrow> None
              | Some (has_frac, r2) \<Rightarrow>
                  (case exp_part r2 of
                     None \<Rightarrow> None
                   | Some (has_exp, r3) \<Rightarrow>
                       if has_frac \<or> has_exp then Some (JFraction (take (length s - length r3) s), r3)
                       else Some (JNumber (if neg then - int (digits_value ds) else int (digits_value ds)), r3))))"

fun obj_put :: "js_string \<Rightarrow> json \<Rightarrow> (js_string \<times> json) list \<Rightarrow> (js_string \<times> json) list" where
  "obj_put k v [] = [(k, v)]"
| "obj_put k v ((k', v') # ms) = (if k' = k then (k, v) # ms else (k', v') # obj_put k v ms)"

definition make_object :: "(js_string \<times> json) list \<Rightarrow> json" where
  "make_object ms = JObject (foldl (\<lambda>acc (k, v). obj_put k v acc) [] ms)"

text \<open>
  Values, the elements of an array after its opening bracket, and the members of an object
  after its opening brace. The first argument bounds the depth of the recursion.
\<close>

fun parse_value :: "nat \<Rightarrow> js_string \<Rightarrow> json parse"
  and parse_elements :: "nat \<Rightarrow> js_string \<Rightarrow> json list parse"
  and parse_members :: "nat \<Rightarrow> js_string \<Rightarrow> (js_string \<times> json) list parse"
where
  "parse_value 0 s = Fuel"
| "parse_value (Suc n) s =
     (case skip_ws s of
        [] \<Rightarrow> Bad
      | c # cs \<Rightarrow>
          if c = 0x5B then
            (case skip_ws cs of
               [] \<Rightarrow> Bad
             | d # ds \<Rightarrow>
                 if d = 0x5D then Got (JArray []) ds
                 else (case parse_elements n cs of
                         Fuel \<Rightarrow> Fuel | Bad \<Rightarrow> Bad
                       | Got vs r \<Rightarrow> Got (JArray vs) r))
          else if c = 0x7B then
            (case skip_ws cs of
               [] \<Rightarrow> Bad
             | d # ds \<Rightarrow>
                 if d = 0x7D then Got (JObject []) ds
                 else (case parse_members n cs of
                         Fuel \<Rightarrow> Fuel | Bad \<Rightarrow> Bad
                       | Got ms r \<Rightarrow> Got (make_object ms) r))
          else if c = 0x22 then
            (case parse_chars cs of
               None \<Rightarrow> Bad
             | Some (str, r) \<Rightarrow> Got (JString str) r)
          else if take 4 (c # cs) = lit ''true'' then Got (JBool True) (drop 4 (c # cs))
          else if take 5 (c # cs) = lit ''false'' then Got (JBool False) (drop 5 (c # cs))
          else if take 4 (c # cs) = lit ''null'' then Got JNull (drop 4 (c # cs))
          else (case parse_number (c # cs) of
                  None \<Rightarrow> Bad
                | Some (v, r) \<Rightarrow> Got v r))"
| "parse_elements 0 s = Fuel"
| "parse_elements (Suc n) s =
     (case parse_value n s of
        Fuel \<Rightarrow> Fuel | Bad \<Rightarrow> Bad
      | Got v r \<Rightarrow>
          (case skip_ws r of
             [] \<Rightarrow> Bad
           | c # cs \<Rightarrow>
               if c = 0x2C then
                 (case parse_elements n cs of
                    Fuel \<Rightarrow> Fuel | Bad \<Rightarrow> Bad
                  | Got vs r' \<Rightarrow> Got (v # vs) r')
               else if c = 0x5D then Got [v] cs
               else Bad))"
| "parse_members 0 s = Fuel"
| "parse_members (Suc n) s =
     (case skip_ws s of
        [] \<Rightarrow> Bad
      | q # cs \<Rightarrow>
          if q \<noteq> 0x22 then Bad
          else
            (case parse_chars cs of
               None \<Rightarrow> Bad
             | Some (key, r) \<Rightarrow>
                 (case skip_ws r of
                    [] \<Rightarrow> Bad
                  | c # r1 \<Rightarrow>
                      if c \<noteq> 0x3A then Bad
                      else
                        (case parse_value n r1 of
                           Fuel \<Rightarrow> Fuel | Bad \<Rightarrow> Bad
                         | Got v r2 \<Rightarrow>
                             (case skip_ws r2 of
                                [] \<Rightarrow> Bad
                              | d # r3 \<Rightarrow>
                                  if d = 0x2C then
                                    (case parse_members n r3 of
                                       Fuel \<Rightarrow> Fuel | Bad \<Rightarrow> Bad
                                     | Got ms r4 \<Rightarrow> Got ((key, v) # ms) r4)
                                  else if d = 0x7D then Got [(key, v)] r3
                                  else Bad)))))"

text \<open>
  \<open>JSON.parse\<close>: one value, white space around it, and nothing else. \<open>None\<close> stands for
  the \<open>SyntaxError\<close> it throws.
\<close>

definition JSON_parse :: "js_string \<Rightarrow> json option" where
  "JSON_parse text =
     (case parse_value (2 * length text + 1) text of
        Got v r \<Rightarrow> if skip_ws r = [] then Some v else None
      | _ \<Rightarrow> None)"

text \<open>
  The JavaScript value a record of the typed list stands for, and the reading of a parsed
  value as a typed list: an array of objects with exactly the four properties, in the order
  \<open>JSON_stringify\<close> writes them.
\<close>

definition js_of_opportunity :: "opportunity \<Rightarrow> json" where
  "js_of_opportunity r =
     JObject [(lit ''id'', JNumber (id_num r)), (lit ''title'', JString (title r)),
              (lit ''category'', JString (category r)), (lit ''saved'', JBool (saved r))]"

definition opportunity_of_js :: "json \<Rightarrow> opportunity option" where
  "opportunity_of_js v =
     (case v of
        JObject [(k1, JNumber n), (k2, JString t), (k3, JString c), (k4, JBool b)] \<Rightarrow>
          if k1 = lit ''id'' \<and> k2 = lit ''title'' \<and> k3 = lit ''category'' \<and> k4 = lit ''saved''
          then Some \<lparr> id_num = n, title = t, category = c, saved = b \<rparr>
          else None
      | _ \<Rightarrow> None)"

definition opportunities_of_js :: "json \<Rightarrow> opportunity list option" where
  "opportunities_of_js v =
     (case v of
        JArray vs \<Rightarrow> those (map opportunity_of_js vs)
      | _ \<Rightarrow> None)"

text \<open>
  \<open>loadFromStorage\<close>. An absent item and the empty string are falsy and leave the list as
  it is. Otherwise \<open>JSON.parse\<close> runs, outside any \<open>try\<close>: its \<open>SyntaxError\<close> leaves the
  function and its callers. The parsed value is assigned to \<open>opportunities\<close> without any
  check. \<open>Untyped v\<close> marks that the assigned value \<open>v\<close> is not a list the typed state can
  hold; the code goes on with it, and this model does not follow it further.
\<close>

datatype failure = SyntaxError | Untyped json

definition loadFromStorage :: "state \<Rightarrow> failure + state" where
  "loadFromStorage s =
     (case storage s of
        None \<Rightarrow> Inr s
      | Some storedData \<Rightarrow>
          if storedData = [] then Inr s
          else
            (case JSON_parse storedData of
               None \<Rightarrow> Inl SyntaxError
             | Some v \<Rightarrow>
                 (case opportunities_of_js v of
                    None \<Rightarrow> Inl (Untyped v)
                  | Some ops \<Rightarrow> Inr (s\<lparr>opportunities := ops\<rparr>))))"

definition init :: "state \<Rightarrow> failure + state" where
  "init s =
     (case loadFromStorage s of
        Inl e \<Rightarrow> Inl e
      | Inr s1 \<Rightarrow> Inr (render (setupEventListeners s1)))"



section \<open>Notions used to state the properties\<close>

text \<open>The label \<open>updateCounter\<close> writes for a given list.\<close>

definition counter_label :: "opportunity list \<Rightarrow> js_string" where
  "counter_label ops =
     Number_toString (int (length ops)) @ lit '' opportunities ('' @
     Number_toString (int (length (filter saved ops))) @ lit '' saved)''"

text \<open>The records a filter value lets through, in the order of the list.\<close>

definition visible :: "js_string \<Rightarrow> opportunity list \<Rightarrow> opportunity list" where
  "visible f ops = filter (\<lambda>opp. f = lit ''all'' \<or> category opp = f) ops"

text \<open>
  What the page has to show for the list and the filter of a state: the available container
  holds the cards of the visible records that are not saved, the saved container the cards
  of those that are, the counter reads the label of the whole list, and a filter button is
  marked active exactly when its value is the current filter.
\<close>

definition page_shows :: "state \<Rightarrow> bool" where
  "page_shows s \<longleftrightarrow>
     availableList s =
       map createOpportunityCard
         (filter (\<lambda>opp. \<not> saved opp) (visible (currentFilter s) (opportunities s))) \<and>
     savedList s =
       map createOpportunityCard (filter saved (visible (currentFilter s) (opportunities s))) \<and>
     counterSpan s = counter_label (opportunities s) \<and>
     map active (filterButtons s) =
       map (\<lambda>btn. dataset_filter btn = currentFilter s) (filterButtons s)"

text \<open>
  The persisted item is the serialisation of the list in memory, and the page shows that
  list under the current filter.
\<close>

definition in_sync :: "state \<Rightarrow> bool" where
  "in_sync s \<longleftrightarrow> storage s = Some (JSON_stringify (opportunities s)) \<and> page_shows s"

fun is_add :: "event \<Rightarrow> bool" where
  "is_add (AddClick now) = True"
| "is_add e = False"

text \<open>
  The values \<open>Date.now()\<close> returns during a run of events from a state, in order. The clock
  is read only by a click on the add button whose trimmed title is not empty: a rejected add
  returns before it reads the clock.
\<close>

fun creation_readings :: "event list \<Rightarrow> state \<Rightarrow> int list" where
  "creation_readings [] s = []"
| "creation_readings (e # evs) s =
     (case e of
        AddClick now \<Rightarrow> if trim (titleInput s) = [] then [] else [now]
      | _ \<Rightarrow> []) @
     creation_readings evs (dispatch e s)"

text \<open>
  How the HTML parser reads a run of text that holds no tag: the four character references
  the serialiser writes are decoded, every other code unit stands for itself.
\<close>

fun decode_text :: "js_string \<Rightarrow> js_string" where
  "decode_text [] = []"
| "decode_text (c # cs) =
     (if c = 0x26 \<and> take 4 cs = lit ''amp;'' then 0x26 # decode_text (drop 4 cs)
      else if c = 0x26 \<and> take 5 cs = lit ''nbsp;'' then 0xA0 # decode_text (drop 5 cs)
      else if c = 0x26 \<and> take 3 cs = lit ''lt;'' then 0x3C # decode_text (drop 3 cs)
      else if c = 0x26 \<and> take 3 cs = lit ''gt;'' then 0x3E # decode_text (drop 3 cs)
      else c # decode_text cs)"

text \<open>
  Concrete states for the examples: the page as the script finds it, with three filter
  buttons and nothing stored; the same page with a title typed in, or with blanks typed in;
  and a board holding one record.
\<close>

definition example_page :: state where
  "example_page =
     \<lparr> opportunities = [], currentFilter = lit ''all'', storage = None,
       titleInput = [], typeInput = lit ''Internship'',
       availableList = [], savedList = [], counterSpan = [],
       errorText = [], errorDisplay = lit ''none'',
       filterButtons =
         [\<lparr>dataset_filter = lit ''all'', active = True\<rparr>,
          \<lparr>dataset_filter = lit ''Internship'', active = False\<rparr>,
          \<lparr>dataset_filter = lit ''Scholarship'', active = False\<rparr>],
       listening = False \<rparr>"

definition scenario_events :: "event list" where
  "scenario_events =
     [TitleTyped (lit ''Research Grant''), TypeSelected (lit ''Scholarship''), AddClick 1000,
      TitleTyped (lit ''Fall Internship''), TypeSelected (lit ''Internship''), AddClick 2000,
      CardActionClick 1000]"

definition example_titled :: state where
  "example_titled = example_page\<lparr>titleInput := lit ''Summer Internship''\<rparr>"

definition example_blank :: state where
  "example_blank = example_page\<lparr>titleInput := lit ''   ''\<rparr>"

definition example_record :: opportunity where
  "example_record =
     \<lparr> id_num = 42, title = lit ''Research Grant'', category = lit ''Scholarship'', saved = False \<rparr>"

definition example_board :: state where
  "example_board = example_page\<lparr>opportunities := [example_record]\<rparr>"


section \<open>Rendering\<close>

lemma render_loop_eq:
  "render_loop xs (av, sv) =
     (av @ map createOpportunityCard (filter (\<lambda>opp. \<not> saved opp) xs),
      sv @ map createOpportunityCard (filter saved xs))"
  by (induction xs arbitrary: av sv) (simp_all add: Let_def)

lemma render_eq:
  "render s =
     s\<lparr>availableList := map createOpportunityCard (filter (\<lambda>opp. \<not> saved opp) (filteredOpportunities s)),
       savedList := map createOpportunityCard (filter saved (filteredOpportunities s)),
       counterSpan :=
         Number_toString (int (length (opportunities s))) @ lit '' opportunities ('' @
         Number_toString (int (length (filter saved (opportunities s)))) @ lit '' saved)'',
       filterButtons :=
         map (\<lambda>btn. btn\<lparr>active := (dataset_filter btn = currentFilter s)\<rparr>) (filterButtons s)\<rparr>"
  by (simp add: render_def render_loop_eq updateCounter_def updateActiveFilter_def)

lemma filtered_render [simp]: "filteredOpportunities (render s) = filteredOpportunities s"
  by (simp add: render_eq filteredOpportunities_def)

lemma render_idem: "render (render s) = render s"
  by (simp add: render_eq filteredOpportunities_def comp_def)

lemma render_fields [simp]:
  "opportunities (render s) = opportunities s"
  "currentFilter (render s) = currentFilter s"
  "storage (render s) = storage s"
  "titleInput (render s) = titleInput s"
  "typeInput (render s) = typeInput s"
  "errorText (render s) = errorText s"
  "errorDisplay (render s) = errorDisplay s"
  "listening (render s) = listening s"
  by (simp_all add: render_eq)

lemma counter_render: "counterSpan (render s) = counter_label (opportunities s)"
  by (simp add: render_eq counter_label_def)

lemma saveAndRender_fields [simp]:
  "opportunities (saveAndRender s) = opportunities s"
  "currentFilter (saveAndRender s) = currentFilter s"
  "storage (saveAndRender s) = Some (JSON_stringify (opportunities s))"
  "titleInput (saveAndRender s) = titleInput s"
  "typeInput (saveAndRender s) = typeInput s"
  "errorText (saveAndRender s) = errorText s"
  "errorDisplay (saveAndRender s) = errorDisplay s"
  "listening (saveAndRender s) = listening s"
  by (simp_all add: saveAndRender_def saveToStorage_def)

lemma counter_saveAndRender: "counterSpan (saveAndRender s) = counter_label (opportunities s)"
  by (simp add: saveAndRender_def counter_render saveToStorage_def)

lemma render_saveAndRender: "render (saveAndRender s) = saveAndRender s"
  by (simp add: saveAndRender_def render_idem)
lemma render_error_upd:
  "render (s\<lparr>errorText := t, errorDisplay := d\<rparr>) = (render s)\<lparr>errorText := t, errorDisplay := d\<rparr>"
  by (simp add: render_eq filteredOpportunities_def)

lemma render_titleInput_upd: "render (s\<lparr>titleInput := t\<rparr>) = (render s)\<lparr>titleInput := t\<rparr>"
  by (simp add: render_eq filteredOpportunities_def)

lemma render_typeInput_upd: "render (s\<lparr>typeInput := t\<rparr>) = (render s)\<lparr>typeInput := t\<rparr>"
  by (simp add: render_eq filteredOpportunities_def)

lemma filteredOpportunities_visible:
  "filteredOpportunities s = visible (currentFilter s) (opportunities s)"
  unfolding filteredOpportunities_def visible_def by (rule filter_cong) auto

lemma page_shows_render: "page_shows (render s)"
  by (simp add: page_shows_def render_eq filteredOpportunities_visible counter_label_def comp_def)

lemma page_shows_saveAndRender: "page_shows (saveAndRender s)"
  by (simp add: saveAndRender_def page_shows_render)

lemma mark_active_same:
  "map active bs = map (\<lambda>btn. dataset_filter btn = f) bs \<Longrightarrow>
   map (\<lambda>btn. btn\<lparr>active := (dataset_filter btn = f)\<rparr>) bs = bs"
  by (induction bs) auto

lemma page_shows_fixpoint: "page_shows s \<Longrightarrow> render s = s"
  by (simp add: page_shows_def render_eq filteredOpportunities_visible counter_label_def
      mark_active_same)

text \<open>
  C6. The visible records are the records of the list that pass the filter, in list order.
  \<open>render\<close> leaves in the available container the cards of the visible records that are
  not saved and in the saved container the cards of those that are, each in the order of the
  visible records; the two groups share no record, together they are the visible records,
  and the visible records are a sublist of the list.
\<close>

theorem render_partition:
  "filteredOpportunities s =
     filter (\<lambda>opp. currentFilter s = lit ''all'' \<or> category opp = currentFilter s) (opportunities s)
   \<and> availableList (render s) =
       map createOpportunityCard (filter (\<lambda>opp. \<not> saved opp) (filteredOpportunities s))
   \<and> savedList (render s) = map createOpportunityCard (filter saved (filteredOpportunities s))
   \<and> set (filter (\<lambda>opp. \<not> saved opp) (filteredOpportunities s)) \<inter>
       set (filter saved (filteredOpportunities s)) = {}
   \<and> set (filter (\<lambda>opp. \<not> saved opp) (filteredOpportunities s)) \<union>
       set (filter saved (filteredOpportunities s)) = set (filteredOpportunities s)
   \<and> subseq (filteredOpportunities s) (opportunities s)
   \<and> subseq (filter (\<lambda>opp. \<not> saved opp) (filteredOpportunities s)) (filteredOpportunities s)
   \<and> subseq (filter saved (filteredOpportunities s)) (filteredOpportunities s)"
proof -
  have vis: "filteredOpportunities s =
     filter (\<lambda>opp. currentFilter s = lit ''all'' \<or> category opp = currentFilter s) (opportunities s)"
    unfolding filteredOpportunities_def by (rule filter_cong) auto
  have av: "availableList (render s) =
       map createOpportunityCard (filter (\<lambda>opp. \<not> saved opp) (filteredOpportunities s))"
    by (simp add: render_eq)
  have sv: "savedList (render s) = map createOpportunityCard (filter saved (filteredOpportunities s))"
    by (simp add: render_eq)
  have disj: "set (filter (\<lambda>opp. \<not> saved opp) (filteredOpportunities s)) \<inter>
       set (filter saved (filteredOpportunities s)) = {}"
    by auto
  have un: "set (filter (\<lambda>opp. \<not> saved opp) (filteredOpportunities s)) \<union>
       set (filter saved (filteredOpportunities s)) = set (filteredOpportunities s)"
    by auto
  have sub: "subseq (filteredOpportunities s) (opportunities s)"
    by (simp add: filteredOpportunities_def)
  show ?thesis using vis av sv disj un sub by (simp only: subseq_filter_left simp_thms)
qed


section \<open>The counter\<close>

lemma counter_dispatch:
  "counterSpan s = counter_label (opportunities s) \<Longrightarrow>
   counterSpan (dispatch e s) = counter_label (opportunities (dispatch e s))"
  by (cases e)
     (simp_all add: handleAddOpportunity_def toggleSavedStatus_def showError_def hideError_def
        Let_def counter_saveAndRender counter_render split: option.splits)

lemma counter_run:
  "counterSpan s = counter_label (opportunities s) \<Longrightarrow>
   counterSpan (run evs s) = counter_label (opportunities (run evs s))"
  unfolding run_def by (induction evs arbitrary: s) (simp_all add: counter_dispatch)

text \<open>
  C7. After \<open>render\<close> the counter reads the length of the whole list, \<open>opportunities (\<close>,
  the number of saved records of the whole list and \<open>saved)\<close>, whatever the filter is, and
  this stays so after any further events.
\<close>

theorem counter_correct:
  "counterSpan (render s) =
     Number_toString (int (length (opportunities s))) @ lit '' opportunities ('' @
     Number_toString (int (length (filter saved (opportunities s)))) @ lit '' saved)'' \<and>
   counterSpan (render (s\<lparr>currentFilter := f\<rparr>)) = counterSpan (render s) \<and>
   counterSpan (run evs (render s)) =
     Number_toString (int (length (opportunities (run evs (render s))))) @ lit '' opportunities ('' @
     Number_toString (int (length (filter saved (opportunities (run evs (render s)))))) @
     lit '' saved)''"
proof -
  have "counterSpan (run evs (render s)) = counter_label (opportunities (run evs (render s)))"
    by (rule counter_run) (simp add: counter_render)
  then show ?thesis by (simp add: counter_render counter_label_def)
qed

text \<open>
  The scenario of the specification: two adds, a toggle of the first record, then the filter
  \<open>Scholarship\<close>.
\<close>

lemma lit_not_empty: "lit (c # cs) \<noteq> []"
  by (simp add: lit_def)

lemma digits_small: "n < 10 \<Longrightarrow> digits_of n = [of_nat (48 + n)]"
  by (simp add: digits_of.simps)

lemma scenario:
  "savedList (run (scenario_events @ [FilterClick (lit ''Scholarship'')]) example_page) =
     [createOpportunityCard
        \<lparr>id_num = 1000, title = lit ''Research Grant'', category = lit ''Scholarship'', saved = True\<rparr>]"
  "availableList (run (scenario_events @ [FilterClick (lit ''Scholarship'')]) example_page) = []"
  "counterSpan (run (scenario_events @ [FilterClick (lit ''Scholarship'')]) example_page) =
     lit ''2 opportunities (1 saved)''"
proof -
  have t: "trim (lit ''Research Grant'') = lit ''Research Grant''"
     "trim (lit ''Fall Internship'') = lit ''Fall Internship''"
    by code_simp+
  have ne: "lit ''Scholarship'' \<noteq> lit ''all''" "lit ''Internship'' \<noteq> lit ''Scholarship''"
    by (simp_all add: lit_def)
  have run_eq: "run (scenario_events @ [FilterClick (lit ''Scholarship'')]) example_page =
     render ((run scenario_events example_page)\<lparr>currentFilter := lit ''Scholarship''\<rparr>)"
    by (simp add: run_def)
  have ops: "opportunities (run scenario_events example_page) =
     [\<lparr>id_num = 1000, title = lit ''Research Grant'', category = lit ''Scholarship'', saved = True\<rparr>,
      \<lparr>id_num = 2000, title = lit ''Fall Internship'', category = lit ''Internship'', saved = False\<rparr>]"
    by (simp add: scenario_events_def run_def handleAddOpportunity_def t lit_not_empty Let_def
        hideError_def toggleSavedStatus_def example_page_def)
  show "savedList (run (scenario_events @ [FilterClick (lit ''Scholarship'')]) example_page) =
     [createOpportunityCard
        \<lparr>id_num = 1000, title = lit ''Research Grant'', category = lit ''Scholarship'', saved = True\<rparr>]"
    unfolding run_eq by (simp add: render_eq filteredOpportunities_def ops ne)
  show "availableList (run (scenario_events @ [FilterClick (lit ''Scholarship'')]) example_page) = []"
    unfolding run_eq by (simp add: render_eq filteredOpportunities_def ops ne)
  show "counterSpan (run (scenario_events @ [FilterClick (lit ''Scholarship'')]) example_page) =
     lit ''2 opportunities (1 saved)''"
    unfolding run_eq
    by (simp add: render_eq ops Number_toString_def digits_small) (simp add: lit_def)
qed


section \<open>Mutations are persisted and rendered\<close>

text \<open>
  A page that was not rebuilt does not pass: the example board holds a record while its
  containers are empty.
\<close>

lemma page_shows_rejects_stale: "\<not> page_shows example_board"
  by (simp add: page_shows_def visible_def example_board_def example_page_def example_record_def)

lemma in_sync_saveAndRender: "in_sync (saveAndRender s)"
  by (simp add: in_sync_def page_shows_saveAndRender)

lemma in_sync_dispatch: "in_sync s \<Longrightarrow> in_sync (dispatch e s)"
proof (cases e)
  case (AddClick now)
  then show "in_sync s \<Longrightarrow> in_sync (dispatch e s)"
    by (cases "trim (titleInput s) = []")
       (simp_all add: handleAddOpportunity_def Let_def in_sync_saveAndRender,
        simp add: showError_def in_sync_def page_shows_def)
next
  case (CardActionClick i)
  then show "in_sync s \<Longrightarrow> in_sync (dispatch e s)"
    by (auto simp: toggleSavedStatus_def in_sync_saveAndRender split: option.splits)
next
  case (FilterClick f)
  then show "in_sync s \<Longrightarrow> in_sync (dispatch e s)"
    by (simp add: in_sync_def page_shows_render)
next
  case (TitleTyped t)
  then show "in_sync s \<Longrightarrow> in_sync (dispatch e s)"
    by (simp add: in_sync_def page_shows_def)
next
  case (TypeSelected t)
  then show "in_sync s \<Longrightarrow> in_sync (dispatch e s)"
    by (simp add: in_sync_def page_shows_def)
qed

lemma trim_examples:
  "trim (lit ''Summer Internship'') = lit ''Summer Internship''"
  "trim (lit ''   '') = []"
  "trim [] = []"
  "trim (lit ''a'') = lit ''a''"
  "trim (lit ''b'') = lit ''b''"
  by code_simp+

text \<open>
  C1. After an add with a non-empty trimmed title, and after a toggle of an id that is in the
  list, the stored item is the serialisation of the list in memory and the page shows that
  same list under the current filter: the two containers hold the cards of its visible
  records, the counter its label, and rendering again changes nothing. Once the stored item
  and the page agree with the list they do so after every further event, so no later
  operation sees the page and the stored item disagree.
\<close>

theorem mutation_persisted_and_rendered:
  "(trim (titleInput s) \<noteq> [] \<longrightarrow>
      storage (handleAddOpportunity now s) =
        Some (JSON_stringify (opportunities (handleAddOpportunity now s))) \<and>
      page_shows (handleAddOpportunity now s) \<and>
      render (handleAddOpportunity now s) = handleAddOpportunity now s) \<and>
   (find (\<lambda>opp. id_num opp = i) (opportunities s) \<noteq> None \<longrightarrow>
      storage (toggleSavedStatus i s) =
        Some (JSON_stringify (opportunities (toggleSavedStatus i s))) \<and>
      page_shows (toggleSavedStatus i s) \<and>
      render (toggleSavedStatus i s) = toggleSavedStatus i s) \<and>
   (storage s = Some (JSON_stringify (opportunities s)) \<and> page_shows s \<longrightarrow>
      storage (run evs s) = Some (JSON_stringify (opportunities (run evs s))) \<and>
      page_shows (run evs s) \<and>
      render (run evs s) = run evs s)"
proof -
  have add: "trim (titleInput s) \<noteq> [] \<Longrightarrow> in_sync (handleAddOpportunity now s)"
    by (simp add: handleAddOpportunity_def Let_def in_sync_saveAndRender)
  have tog: "find (\<lambda>opp. id_num opp = i) (opportunities s) \<noteq> None \<Longrightarrow>
      in_sync (toggleSavedStatus i s)"
    by (auto simp: toggleSavedStatus_def in_sync_saveAndRender split: option.splits)
  have runs: "in_sync s \<Longrightarrow> in_sync (run evs s)"
    unfolding run_def by (induction evs arbitrary: s) (simp_all add: in_sync_dispatch)
  show ?thesis
    using add tog runs page_shows_fixpoint unfolding in_sync_def by blast
qed

theorem mutation_persisted_and_rendered_witness:
  "trim (titleInput example_titled) \<noteq> [] \<and>
   storage (handleAddOpportunity 1700000000000 example_titled) =
     Some (JSON_stringify (opportunities (handleAddOpportunity 1700000000000 example_titled))) \<and>
   page_shows (handleAddOpportunity 1700000000000 example_titled) \<and>
   find (\<lambda>opp. id_num opp = 42) (opportunities example_board) \<noteq> None \<and>
   storage (toggleSavedStatus 42 example_board) =
     Some (JSON_stringify (opportunities (toggleSavedStatus 42 example_board))) \<and>
   page_shows (toggleSavedStatus 42 example_board) \<and>
   savedList (toggleSavedStatus 42 example_board) =
     [createOpportunityCard (example_record\<lparr>saved := True\<rparr>)] \<and>
   availableList (toggleSavedStatus 42 example_board) = [] \<and>
   storage (saveAndRender example_board) =
     Some (JSON_stringify (opportunities (saveAndRender example_board))) \<and>
   page_shows (saveAndRender example_board) \<and>
   storage (run [FilterClick (lit ''Scholarship'')] (saveAndRender example_board)) =
     Some (JSON_stringify
       (opportunities (run [FilterClick (lit ''Scholarship'')] (saveAndRender example_board)))) \<and>
   page_shows (run [FilterClick (lit ''Scholarship'')] (saveAndRender example_board))"
proof -
  have h1: "trim (titleInput example_titled) \<noteq> []"
    by (simp add: example_titled_def trim_examples lit_not_empty)
  have h2: "find (\<lambda>opp. id_num opp = 42) (opportunities example_board) \<noteq> None"
    by (simp add: example_board_def example_record_def)
  have h3: "storage (saveAndRender example_board) =
     Some (JSON_stringify (opportunities (saveAndRender example_board))) \<and>
     page_shows (saveAndRender example_board)"
    by (simp add: page_shows_saveAndRender)
  have t: "opportunities (toggleSavedStatus 42 example_board) = [example_record\<lparr>saved := True\<rparr>]"
      "currentFilter (toggleSavedStatus 42 example_board) = lit ''all''"
    by (simp_all add: toggleSavedStatus_def example_board_def example_record_def example_page_def)
  have p: "page_shows (toggleSavedStatus 42 example_board)"
    using h2 mutation_persisted_and_rendered [of example_board 0 42 "[]"] by blast
  have lists: "savedList (toggleSavedStatus 42 example_board) =
       [createOpportunityCard (example_record\<lparr>saved := True\<rparr>)]"
     "availableList (toggleSavedStatus 42 example_board) = []"
    using p by (simp_all add: page_shows_def t visible_def)
  show ?thesis
    using h1 h2 h3 lists
      mutation_persisted_and_rendered [of example_titled 1700000000000 0 "[]"]
      mutation_persisted_and_rendered [of example_board 0 42 "[]"]
      mutation_persisted_and_rendered
        [of "saveAndRender example_board" 0 0 "[FilterClick (lit ''Scholarship'')]"]
    by blast
qed


section \<open>Adding\<close>

text \<open>
  C3. When the trimmed title is empty, \<open>handleAddOpportunity\<close> changes nothing but the error
  region, which shows the message: the list, the stored item and the rendered lists stay as
  they were. Otherwise it appends one record with the clock reading as id, the trimmed title,
  the selected category and \<open>saved = false\<close>, stores the serialised list, and renders: the
  page then shows the new list under the unchanged filter (the containers hold the cards of
  its visible records, the counter its label). The input is emptied and the error region
  hidden.
\<close>

theorem add_validation:
  "(trim (titleInput s) = [] \<longrightarrow>
      handleAddOpportunity now s =
        s\<lparr>errorText := lit ''Opportunity title cannot be empty.'', errorDisplay := lit ''block''\<rparr>) \<and>
   (trim (titleInput s) \<noteq> [] \<longrightarrow>
      opportunities (handleAddOpportunity now s) =
        opportunities s @
        [\<lparr>id_num = now, title = trim (titleInput s), category = typeInput s, saved = False\<rparr>] \<and>
      storage (handleAddOpportunity now s) =
        Some (JSON_stringify (opportunities (handleAddOpportunity now s))) \<and>
      currentFilter (handleAddOpportunity now s) = currentFilter s \<and>
      page_shows (handleAddOpportunity now s) \<and>
      render (handleAddOpportunity now s) = handleAddOpportunity now s \<and>
      titleInput (handleAddOpportunity now s) = [] \<and>
      errorDisplay (handleAddOpportunity now s) = lit ''none'')"
  by (simp add: handleAddOpportunity_def Let_def showError_def hideError_def render_saveAndRender
      page_shows_saveAndRender)

theorem add_validation_witness:
  "trim (titleInput example_blank) = [] \<and>
   handleAddOpportunity 1700000000000 example_blank =
     example_blank\<lparr>errorText := lit ''Opportunity title cannot be empty.'',
                   errorDisplay := lit ''block''\<rparr> \<and>
   trim (titleInput example_titled) \<noteq> [] \<and>
   opportunities (handleAddOpportunity 1700000000000 example_titled) =
     [\<lparr>id_num = 1700000000000, title = lit ''Summer Internship'',
       category = lit ''Internship'', saved = False\<rparr>] \<and>
   storage (handleAddOpportunity 1700000000000 example_titled) =
     Some (JSON_stringify (opportunities (handleAddOpportunity 1700000000000 example_titled))) \<and>
   availableList (handleAddOpportunity 1700000000000 example_titled) =
     [createOpportunityCard
        \<lparr>id_num = 1700000000000, title = lit ''Summer Internship'',
         category = lit ''Internship'', saved = False\<rparr>] \<and>
   savedList (handleAddOpportunity 1700000000000 example_titled) = [] \<and>
   counterSpan (handleAddOpportunity 1700000000000 example_titled) =
     lit ''1 opportunities (0 saved)'' \<and>
   errorDisplay (handleAddOpportunity 1700000000000 example_titled) = lit ''none''"
proof -
  have h1: "trim (titleInput example_blank) = []"
    by (simp add: example_blank_def trim_examples)
  have h2: "trim (titleInput example_titled) \<noteq> []"
    by (simp add: example_titled_def trim_examples lit_not_empty)
  have t: "trim (titleInput example_titled) = lit ''Summer Internship''"
    by (simp add: example_titled_def trim_examples)
  have o: "opportunities example_titled = []" "typeInput example_titled = lit ''Internship''"
      "currentFilter example_titled = lit ''all''"
    by (simp_all add: example_titled_def example_page_def)
  have label: "counter_label
      [\<lparr>id_num = 1700000000000, title = lit ''Summer Internship'',
        category = lit ''Internship'', saved = False\<rparr>] = lit ''1 opportunities (0 saved)''"
    by (simp add: counter_label_def Number_toString_def digits_small) (simp add: lit_def)
  show ?thesis
    using h1 h2 add_validation [of example_blank 1700000000000]
      add_validation [of example_titled 1700000000000]
    by (simp add: t o page_shows_def visible_def label)
qed


section \<open>Toggling\<close>

lemma find_None_iff_ids: "find (\<lambda>opp. id_num opp = i) xs = None \<longleftrightarrow> i \<notin> id_num ` set xs"
  by (auto simp: find_None_iff)

lemma flip_first_split:
  "\<forall>x\<in>set pre. id_num x \<noteq> i \<Longrightarrow> id_num r = i \<Longrightarrow>
   flip_first i (pre @ r # post) = pre @ r\<lparr>saved := \<not> saved r\<rparr> # post"
  by (induction pre) simp_all

lemma flip_first_twice: "flip_first i (flip_first i xs) = xs"
  by (induction xs) simp_all

lemma ids_flip_first [simp]: "map id_num (flip_first i xs) = map id_num xs"
  by (induction xs) simp_all

lemma find_flip_first:
  "find (\<lambda>opp. id_num opp = i) (flip_first i xs) = None \<longleftrightarrow> find (\<lambda>opp. id_num opp = i) xs = None"
  by (metis find_None_iff_ids ids_flip_first set_map)

text \<open>
  C4. \<open>toggleSavedStatus\<close> with an id no record has returns the state as it is: list, stored
  item and page are untouched and nothing is reported. With an id that is in the list it
  flips \<open>saved\<close> of the first record with that id and leaves every other record alone, stores
  the serialised list and renders: the page then shows the new list under the unchanged
  filter (the containers hold the cards of its visible records, the counter its label).
  Toggling the same id twice gives the list back.
\<close>

theorem toggle_semantics:
  "(i \<notin> id_num ` set (opportunities s) \<longrightarrow> toggleSavedStatus i s = s) \<and>
   (opportunities s = pre @ r # post \<and> id_num r = i \<and> (\<forall>x\<in>set pre. id_num x \<noteq> i) \<longrightarrow>
      opportunities (toggleSavedStatus i s) = pre @ r\<lparr>saved := \<not> saved r\<rparr> # post \<and>
      storage (toggleSavedStatus i s) = Some (JSON_stringify (opportunities (toggleSavedStatus i s))) \<and>
      currentFilter (toggleSavedStatus i s) = currentFilter s \<and>
      page_shows (toggleSavedStatus i s) \<and>
      render (toggleSavedStatus i s) = toggleSavedStatus i s) \<and>
   opportunities (toggleSavedStatus i (toggleSavedStatus i s)) = opportunities s"
proof -
  have absent: "i \<notin> id_num ` set (opportunities s) \<Longrightarrow> toggleSavedStatus i s = s"
    by (simp add: toggleSavedStatus_def find_None_iff_ids [symmetric])
  have present: "opportunities (toggleSavedStatus i s) = pre @ r\<lparr>saved := \<not> saved r\<rparr> # post \<and>
      storage (toggleSavedStatus i s) = Some (JSON_stringify (opportunities (toggleSavedStatus i s))) \<and>
      currentFilter (toggleSavedStatus i s) = currentFilter s \<and>
      page_shows (toggleSavedStatus i s) \<and>
      render (toggleSavedStatus i s) = toggleSavedStatus i s"
    if "opportunities s = pre @ r # post" "id_num r = i" "\<forall>x\<in>set pre. id_num x \<noteq> i"
  proof -
    have "i \<in> id_num ` set (opportunities s)" using that by auto
    then obtain x where "find (\<lambda>opp. id_num opp = i) (opportunities s) = Some x"
      using find_None_iff_ids by fastforce
    then have "toggleSavedStatus i s = saveAndRender (s\<lparr>opportunities := flip_first i (opportunities s)\<rparr>)"
      by (simp add: toggleSavedStatus_def)
    then show ?thesis
      using that by (simp add: flip_first_split render_saveAndRender page_shows_saveAndRender)
  qed
  have twice: "opportunities (toggleSavedStatus i (toggleSavedStatus i s)) = opportunities s"
  proof (cases "find (\<lambda>opp. id_num opp = i) (opportunities s)")
    case None
    then show ?thesis by (simp add: toggleSavedStatus_def)
  next
    case (Some x)
    then have 1: "toggleSavedStatus i s = saveAndRender (s\<lparr>opportunities := flip_first i (opportunities s)\<rparr>)"
      by (simp add: toggleSavedStatus_def)
    have "find (\<lambda>opp. id_num opp = i) (flip_first i (opportunities s)) \<noteq> None"
      using Some by (simp add: find_flip_first)
    then show ?thesis
      unfolding 1 by (auto simp: toggleSavedStatus_def flip_first_twice split: option.splits)
  qed
  show ?thesis using absent present twice by blast
qed

theorem toggle_semantics_witness:
  "999 \<notin> id_num ` set (opportunities example_board) \<and>
   toggleSavedStatus 999 example_board = example_board \<and>
   opportunities example_board = [] @ example_record # [] \<and> id_num example_record = 42 \<and>
   opportunities (toggleSavedStatus 42 example_board) = [example_record\<lparr>saved := True\<rparr>] \<and>
   savedList (toggleSavedStatus 42 example_board) =
     [createOpportunityCard (example_record\<lparr>saved := True\<rparr>)] \<and>
   availableList (toggleSavedStatus 42 example_board) = [] \<and>
   counterSpan (toggleSavedStatus 42 example_board) = lit ''1 opportunities (1 saved)'' \<and>
   opportunities (toggleSavedStatus 42 (toggleSavedStatus 42 example_board)) = [example_record]"
proof -
  have h1: "999 \<notin> id_num ` set (opportunities example_board)"
    by (simp add: example_board_def example_record_def)
  have h2: "opportunities example_board = [] @ example_record # []"
    by (simp add: example_board_def)
  have h3: "id_num example_record = 42" "\<not> saved example_record"
    by (simp_all add: example_record_def)
  have h4: "\<forall>x\<in>set ([] :: opportunity list). id_num x \<noteq> (42::int)"
    by simp
  have f: "currentFilter example_board = lit ''all''"
    by (simp add: example_board_def example_page_def)
  have label: "counter_label [example_record\<lparr>saved := True\<rparr>] = lit ''1 opportunities (1 saved)''"
    by (simp add: counter_label_def Number_toString_def digits_small) (simp add: lit_def)
  show ?thesis
    using h1 h2 h3 h4 toggle_semantics [of 999 example_board "[]" example_record "[]"]
      toggle_semantics [of 42 example_board "[]" example_record "[]"]
    by (simp add: f page_shows_def visible_def label)
qed


section \<open>The error region\<close>

lemma error_dispatch:
  "\<not> is_add e \<Longrightarrow> errorText (dispatch e s) = errorText s \<and> errorDisplay (dispatch e s) = errorDisplay s"
  by (cases e) (simp_all add: toggleSavedStatus_def split: option.splits)

lemma error_run:
  "\<forall>e\<in>set evs. \<not> is_add e \<Longrightarrow>
   errorText (run evs s) = errorText s \<and> errorDisplay (run evs s) = errorDisplay s"
  unfolding run_def by (induction evs arbitrary: s) (simp_all add: error_dispatch)

text \<open>
  C10. Only a click on the add button changes the error region. Over any run of toggles,
  filter changes and typing, its text and its visibility stay as they are; in particular the
  message of a rejected add stays shown over such a run, until an add with a non-empty
  trimmed title hides the region (its text is left in place).
\<close>

theorem error_indicator_frame:
  "(\<forall>e\<in>set evs. \<not> is_add e) \<longrightarrow>
     errorText (run evs s) = errorText s \<and> errorDisplay (run evs s) = errorDisplay s \<and>
     (trim (titleInput s) = [] \<longrightarrow>
        errorText (run evs (handleAddOpportunity now s)) = lit ''Opportunity title cannot be empty.'' \<and>
        errorDisplay (run evs (handleAddOpportunity now s)) = lit ''block'') \<and>
     (trim (titleInput (run evs s)) \<noteq> [] \<longrightarrow>
        errorDisplay (handleAddOpportunity now (run evs s)) = lit ''none'' \<and>
        errorText (handleAddOpportunity now (run evs s)) = errorText s)"
  by (simp add: error_run handleAddOpportunity_def Let_def showError_def hideError_def)

theorem error_indicator_frame_witness:
  "\<not> is_add (CardActionClick 42) \<and> \<not> is_add (FilterClick (lit ''Scholarship'')) \<and>
   \<not> is_add (TitleTyped (lit ''a'')) \<and>
   trim (titleInput example_blank) = [] \<and>
   trim (titleInput (run [CardActionClick 42, FilterClick (lit ''Scholarship''), TitleTyped (lit ''a'')]
      example_blank)) \<noteq> [] \<and>
   errorDisplay (run [CardActionClick 42, FilterClick (lit ''Scholarship''), TitleTyped (lit ''a'')]
      example_blank) = lit ''none'' \<and>
   errorDisplay (run [CardActionClick 42, FilterClick (lit ''Scholarship''), TitleTyped (lit ''a'')]
      (handleAddOpportunity 7 example_blank)) = lit ''block'' \<and>
   errorText (run [CardActionClick 42, FilterClick (lit ''Scholarship''), TitleTyped (lit ''a'')]
      (handleAddOpportunity 7 example_blank)) = lit ''Opportunity title cannot be empty.'' \<and>
   errorDisplay (handleAddOpportunity 7
      (run [CardActionClick 42, FilterClick (lit ''Scholarship''), TitleTyped (lit ''a'')]
         example_blank)) = lit ''none''"
proof -
  have h1: "\<forall>e\<in>set [CardActionClick 42, FilterClick (lit ''Scholarship''), TitleTyped (lit ''a'')].
      \<not> is_add e"
    by simp
  have h2: "trim (titleInput example_blank) = []"
    by (simp add: example_blank_def trim_examples)
  have h3: "trim (titleInput (run [CardActionClick 42, FilterClick (lit ''Scholarship''),
      TitleTyped (lit ''a'')] example_blank)) \<noteq> []"
    by (simp add: run_def trim_examples lit_not_empty)
  have d: "errorDisplay example_blank = lit ''none''"
    by (simp add: example_blank_def example_page_def)
  show ?thesis
    using h1 h2 h3 d
      error_indicator_frame
        [of "[CardActionClick 42, FilterClick (lit ''Scholarship''), TitleTyped (lit ''a'')]"
            example_blank 7]
    by simp
qed


section \<open>Escaping\<close>

lemma escapeHTML_no_angle: "0x3C \<notin> set (escapeHTML str) \<and> 0x3E \<notin> set (escapeHTML str)"
  by (induction str) (simp_all add: escapeHTML_def escape_unit_def lit_def)

lemma decode_escapeHTML: "decode_text (escapeHTML str) = str"
  by (induction str) (simp_all add: escapeHTML_def escape_unit_def lit_def)

text \<open>
  C9. The markup of a card holds the title and the category only as \<open>escapeHTML\<close> returns
  them. That text holds neither \<open><\<close> nor \<open>>\<close>, so no tag starts inside it, and read back as
  text it is the original string: \<open><script>alert(1)</script>\<close> becomes
  \<open>&lt;script&gt;alert(1)&lt;/script&gt;\<close>.
\<close>

theorem card_text_escaped:
  \<open>innerHTML (createOpportunityCard r) =
     lit ''\<newline>        <h3>'' @ escapeHTML (title r) @
     lit ''</h3>\<newline>        <p class="card-details">Category: '' @ escapeHTML (category r) @
     lit ''</p>\<newline>        <button class="'' @
     (if saved r then lit ''card-action-btn remove-btn'' else lit ''card-action-btn save-btn'') @
     lit ''">'' @ (if saved r then lit ''Remove'' else lit ''Save'') @ lit ''</button>\<newline>    '' \<and>
   0x3C \<notin> set (escapeHTML str) \<and> 0x3E \<notin> set (escapeHTML str) \<and>
   decode_text (escapeHTML str) = str \<and>
   escapeHTML (lit ''<script>alert(1)</script>'') = lit ''&lt;script&gt;alert(1)&lt;/script&gt;''\<close>
proof -
  have ex: "escapeHTML (lit ''<script>alert(1)</script>'') = lit ''&lt;script&gt;alert(1)&lt;/script&gt;''"
    by (simp add: escapeHTML_def escape_unit_def lit_def)
  show ?thesis
    using escapeHTML_no_angle [of str] decode_escapeHTML [of str] ex
    by (simp add: createOpportunityCard_def Let_def)
qed


section \<open>Ids\<close>

lemma ids_dispatch:
  "map id_num (opportunities (dispatch e s)) =
     map id_num (opportunities s) @ creation_readings [e] s"
proof (cases e)
  case (AddClick now)
  then show ?thesis
    by (simp add: handleAddOpportunity_def Let_def showError_def hideError_def)
next
  case (CardActionClick i)
  then show ?thesis by (simp add: toggleSavedStatus_def split: option.splits)
qed simp_all

lemma creation_readings_Cons:
  "creation_readings (e # evs) s = creation_readings [e] s @ creation_readings evs (dispatch e s)"
  by simp

lemma ids_run:
  "map id_num (opportunities (run evs s)) = map id_num (opportunities s) @ creation_readings evs s"
proof (induction evs arbitrary: s)
  case Nil
  show ?case by (simp add: run_def)
next
  case (Cons e evs)
  have "map id_num (opportunities (run (e # evs) s)) =
      map id_num (opportunities (run evs (dispatch e s)))"
    by (simp add: run_def)
  also have "\<dots> = map id_num (opportunities (dispatch e s)) @ creation_readings evs (dispatch e s)"
    by (rule Cons.IH)
  also have "\<dots> = map id_num (opportunities s) @ creation_readings [e] s @
      creation_readings evs (dispatch e s)"
    by (simp only: ids_dispatch append_assoc)
  finally show ?case by (simp only: creation_readings_Cons [of e evs s])
qed

text \<open>
  C8, as the code has it. The id of a record is the clock reading of the add that created
  it: after any run of events the ids of the list are the ids it started with, followed by
  the readings the clock gave during the run, in order. So the ids are pairwise distinct
  exactly when the starting ids and those readings are, and when the starting ids followed
  by the readings are strictly increasing, the ids of the list are strictly increasing and
  pairwise distinct.
\<close>

theorem ids_increase_with_clock:
  "map id_num (opportunities (run evs s)) =
     map id_num (opportunities s) @ creation_readings evs s \<and>
   distinct (map id_num (opportunities (run evs s))) =
     distinct (map id_num (opportunities s) @ creation_readings evs s) \<and>
   (sorted_wrt (<) (map id_num (opportunities s) @ creation_readings evs s) \<longrightarrow>
      sorted_wrt (<) (map id_num (opportunities (run evs s))) \<and>
      distinct (map id_num (opportunities (run evs s))))"
  by (simp add: ids_run strict_sorted_iff)

theorem ids_increase_with_clock_witness:
  "creation_readings
     [AddClick 7, TitleTyped (lit ''a''), AddClick 100, TitleTyped (lit ''b''), AddClick 101]
     example_board = [100, 101] \<and>
   sorted_wrt (<) (map id_num (opportunities example_board) @
      creation_readings
        [AddClick 7, TitleTyped (lit ''a''), AddClick 100, TitleTyped (lit ''b''), AddClick 101]
        example_board) \<and>
   map id_num (opportunities
      (run [AddClick 7, TitleTyped (lit ''a''), AddClick 100, TitleTyped (lit ''b''), AddClick 101]
         example_board)) = [42, 100, 101] \<and>
   sorted_wrt (<) (map id_num (opportunities
      (run [AddClick 7, TitleTyped (lit ''a''), AddClick 100, TitleTyped (lit ''b''), AddClick 101]
         example_board))) \<and>
   distinct (map id_num (opportunities
      (run [AddClick 7, TitleTyped (lit ''a''), AddClick 100, TitleTyped (lit ''b''), AddClick 101]
         example_board)))"
proof -
  have r: "creation_readings
     [AddClick 7, TitleTyped (lit ''a''), AddClick 100, TitleTyped (lit ''b''), AddClick 101]
     example_board = [100, 101]"
    by (simp add: handleAddOpportunity_def Let_def showError_def hideError_def trim_examples
        lit_not_empty example_board_def example_page_def)
  have i: "map id_num (opportunities example_board) = [42]"
    by (simp add: example_board_def example_record_def)
  show ?thesis
    using ids_increase_with_clock
      [of "[AddClick 7, TitleTyped (lit ''a''), AddClick 100, TitleTyped (lit ''b''), AddClick 101]"
          example_board]
    unfolding r i by simp
qed

text \<open>
  C8, as stated, fails: two adds that read the same millisecond from the clock create two
  records with the same id.
\<close>

theorem ids_same_millisecond:
  "\<not> distinct (map id_num (opportunities
      (run [TitleTyped (lit ''a''), AddClick 1700000000000,
            TitleTyped (lit ''b''), AddClick 1700000000000] example_page)))"
  by (simp add: run_def handleAddOpportunity_def trim_examples lit_not_empty Let_def hideError_def)


section \<open>Numbers written and read back\<close>

lemma unat_digit: "d < 10 \<Longrightarrow> unat (of_nat (48 + d) :: 16 word) = 48 + d"
  by (simp add: unat_of_nat del: of_nat_add)

lemma is_digit_of_nat: "d < 10 \<Longrightarrow> is_digit (of_nat (48 + d) :: 16 word)"
  by (simp add: is_digit_def word_le_nat_alt unat_digit del: of_nat_add)

lemma digits_of_all_digits: "\<forall>c\<in>set (digits_of n). is_digit c"
proof (induction n rule: digits_of.induct)
  case (1 n)
  show ?case
  proof (cases "n < 10")
    case True
    then show ?thesis by (subst digits_of.simps) (simp add: is_digit_of_nat del: of_nat_add)
  next
    case False
    then show ?thesis using 1 by (subst digits_of.simps) (simp add: is_digit_of_nat del: of_nat_add)
  qed
qed

lemma digits_of_not_empty: "digits_of n \<noteq> []"
  by (subst digits_of.simps) simp

lemma digits_value_snoc: "digits_value (ds @ [c]) = 10 * digits_value ds + (unat c - 48)"
  by (simp add: digits_value_def)

lemma digits_value_digits_of: "digits_value (digits_of n) = n"
proof (induction n rule: digits_of.induct)
  case (1 n)
  show ?case
  proof (cases "n < 10")
    case True
    then show ?thesis
      by (subst digits_of.simps) (simp add: digits_value_def unat_digit del: of_nat_add)
  next
    case False
    then show ?thesis using 1
      by (subst digits_of.simps) (simp add: digits_value_snoc unat_digit del: of_nat_add)
  qed
qed

lemma digits_of_leading_zero: "digits_of n = 0x30 # cs \<Longrightarrow> cs = []"
proof (induction n arbitrary: cs rule: digits_of.induct)
  case (1 n)
  show ?case
  proof (cases "n < 10")
    case True
    then show ?thesis using "1.prems" by (subst (asm) digits_of.simps) simp
  next
    case False
    then have eq: "digits_of n = digits_of (n div 10) @ [of_nat (48 + n mod 10)]"
      by (subst digits_of.simps) simp
    obtain d ds where dd: "digits_of (n div 10) = d # ds"
      using digits_of_not_empty by (cases "digits_of (n div 10)") auto
    with eq "1.prems" have "d = 0x30" by simp
    with dd "1.IH" False have "ds = []" by simp
    with dd \<open>d = 0x30\<close> have "digits_value (digits_of (n div 10)) = 0"
      by (simp add: digits_value_def)
    then have "n div 10 = 0" by (simp add: digits_value_digits_of)
    with False show ?thesis by simp
  qed
qed


lemma is_digit_not_minus: "is_digit c \<Longrightarrow> c \<noteq> 0x2D"
  by (auto simp: is_digit_def)

lemma takeWhile_digits_append:
  "\<forall>c\<in>set ds. is_digit c \<Longrightarrow> \<not> is_digit x \<Longrightarrow> takeWhile is_digit (ds @ x # rest) = ds"
  by (induction ds) simp_all

lemma dropWhile_digits_append:
  "\<forall>c\<in>set ds. is_digit c \<Longrightarrow> \<not> is_digit x \<Longrightarrow> dropWhile is_digit (ds @ x # rest) = x # rest"
  by (induction ds) simp_all

lemma int_part_digits_of:
  assumes "\<not> is_digit x"
  shows "int_part (digits_of n @ x # rest) = Some (digits_of n, x # rest)"
proof -
  obtain d ds where dd: "digits_of n = d # ds"
    using digits_of_not_empty by (cases "digits_of n") auto
  have all: "\<forall>c\<in>set (digits_of n). is_digit c" by (rule digits_of_all_digits)
  show ?thesis
  proof (cases "d = 0x30")
    case True
    with dd have "ds = []" using digits_of_leading_zero by simp
    with dd True show ?thesis by (simp add: int_part_def)
  next
    case False
    have "is_digit d" using all dd by simp
    moreover have "takeWhile is_digit (digits_of n @ x # rest) = digits_of n"
      using all assms by (rule takeWhile_digits_append)
    moreover have "dropWhile is_digit (digits_of n @ x # rest) = x # rest"
      using all assms by (rule dropWhile_digits_append)
    ultimately show ?thesis using False dd by (simp add: int_part_def)
  qed
qed

lemma parse_number_toString:
  "parse_number (Number_toString i @ 0x2C # rest) = Some (JNumber i, 0x2C # rest)"
proof -
  have nd: "\<not> is_digit (0x2C :: 16 word)" by (simp add: is_digit_def)
  have fr: "frac_part (0x2C # rest) = Some (False, 0x2C # rest)" by (simp add: frac_part_def)
  have ex: "exp_part (0x2C # rest) = Some (False, 0x2C # rest)" by (simp add: exp_part_def)
  show ?thesis
  proof (cases "i < 0")
    case True
    then show ?thesis
      by (simp add: parse_number_def Number_toString_def int_part_digits_of [OF nd] fr ex
          digits_value_digits_of)
  next
    case False
    obtain d ds where dd: "digits_of (nat i) = d # ds"
      using digits_of_not_empty by (cases "digits_of (nat i)") auto
    have "is_digit d" using digits_of_all_digits [of "nat i"] dd by simp
    then have "d \<noteq> 0x2D" by (rule is_digit_not_minus)
    then have neg: "(case digits_of (nat i) @ 0x2C # rest of [] \<Rightarrow> False | c # cs \<Rightarrow> c = 0x2D) = False"
      by (simp add: dd)
    show ?thesis using False
      by (simp add: parse_number_def Number_toString_def neg int_part_digits_of [OF nd] fr ex
          digits_value_digits_of)
  qed
qed


section \<open>Strings written and read back\<close>

lemma hex_val_hex_digit: "d < 16 \<Longrightarrow> hex_val (hex_digit d) = Some d"
proof -
  assume "d < 16"
  then have "d = 0 \<or> d = 1 \<or> d = 2 \<or> d = 3 \<or> d = 4 \<or> d = 5 \<or> d = 6 \<or> d = 7 \<or> d = 8 \<or> d = 9 \<or>
     d = 10 \<or> d = 11 \<or> d = 12 \<or> d = 13 \<or> d = 14 \<or> d = 15" by arith
  then show ?thesis by (elim disjE) (simp_all add: hex_val_def hex_digit_def)
qed

lemma hex_recombine:
  "((n div 4096 * 16 + n div 256 mod 16) * 16 + n div 16 mod 16) * 16 + n mod 16 = (n::nat)"
proof -
  have a: "n div 256 = (n div 16) div 16" by (simp add: div_mult2_eq)
  have b: "n div 4096 = ((n div 16) div 16) div 16" by (simp add: div_mult2_eq)
  show ?thesis unfolding a b
    by (metis div_mult_mod_eq)
qed


lemma parse_chars_UnicodeEscape:
  "parse_chars (UnicodeEscape c @ t) = push_unit c (parse_chars t)"
proof -
  have lt: "unat c < 65536" using unsigned_less [of c, where 'a = nat] by simp
  then have d: "unat c div 4096 < 16" "unat c div 256 mod 16 < 16" "unat c div 16 mod 16 < 16"
      "unat c mod 16 < 16"
    by simp_all
  have r: "of_nat (((unat c div 4096 * 16 + unat c div 256 mod 16) * 16 + unat c div 16 mod 16) * 16
          + unat c mod 16) = c"
    by (simp only: hex_recombine) simp
  have "parse_chars (UnicodeEscape c @ t) =
     push_unit (of_nat (((unat c div 4096 * 16 + unat c div 256 mod 16) * 16 + unat c div 16 mod 16) * 16
          + unat c mod 16)) (parse_chars t)"
    by (simp add: UnicodeEscape_def Let_def hex_val_hex_digit d del: of_nat_add of_nat_mult)
  then show ?thesis by (simp only: r)
qed


lemma parse_chars_raw:
  "c \<noteq> 0x22 \<Longrightarrow> c \<noteq> 0x5C \<Longrightarrow> \<not> c < 0x20 \<Longrightarrow> parse_chars (c # t) = push_unit c (parse_chars t)"
  by simp

lemma trailing_surrogate_raw:
  "is_trailing_surrogate d \<Longrightarrow> parse_chars (d # t) = push_unit d (parse_chars t)"
proof -
  assume "is_trailing_surrogate d"
  then have "0xDC00 \<le> unat d" by (simp add: is_trailing_surrogate_def word_le_nat_alt)
  then have "d \<noteq> 0x22" "d \<noteq> 0x5C" "\<not> d < 0x20"
    by (auto simp: word_less_nat_alt)
  then show ?thesis by (rule parse_chars_raw)
qed

lemma parse_chars_escapes:
  "parse_chars (0x5C # 0x62 # t) = push_unit 0x08 (parse_chars t)"
  "parse_chars (0x5C # 0x74 # t) = push_unit 0x09 (parse_chars t)"
  "parse_chars (0x5C # 0x6E # t) = push_unit 0x0A (parse_chars t)"
  "parse_chars (0x5C # 0x66 # t) = push_unit 0x0C (parse_chars t)"
  "parse_chars (0x5C # 0x72 # t) = push_unit 0x0D (parse_chars t)"
  "parse_chars (0x5C # 0x22 # t) = push_unit 0x22 (parse_chars t)"
  "parse_chars (0x5C # 0x5C # t) = push_unit 0x5C (parse_chars t)"
  by (simp_all add: unescape_def)

lemma parse_chars_quote_units:
  "parse_chars (quote_units s @ 0x22 # rest) = Some (s, rest)"
proof (induction "length s" arbitrary: s rule: less_induct)
  case less
  show ?case
  proof (cases s)
    case Nil
    then show ?thesis by simp
  next
    case (Cons c cs)
    have ih: "parse_chars (quote_units cs @ 0x22 # rest) = Some (cs, rest)"
      using less [of cs] Cons by simp
    have step: "push_unit c (parse_chars (quote_units cs @ 0x22 # rest)) = Some (c # cs, rest)"
      using ih by (simp add: push_unit_def)
    have uni: "parse_chars ((UnicodeEscape c @ quote_units cs) @ 0x22 # rest) = Some (c # cs, rest)"
      using step by (simp add: parse_chars_UnicodeEscape del: parse_chars.simps)
    consider (esc) "c = 0x08 \<or> c = 0x09 \<or> c = 0x0A \<or> c = 0x0C \<or> c = 0x0D \<or> c = 0x22 \<or> c = 0x5C"
      | (ctl) "\<not> (c = 0x08 \<or> c = 0x09 \<or> c = 0x0A \<or> c = 0x0C \<or> c = 0x0D \<or> c = 0x22 \<or> c = 0x5C)" "c < 0x20"
      | (lead) "\<not> (c = 0x08 \<or> c = 0x09 \<or> c = 0x0A \<or> c = 0x0C \<or> c = 0x0D \<or> c = 0x22 \<or> c = 0x5C)"
          "\<not> c < 0x20" "is_leading_surrogate c"
      | (trail) "\<not> (c = 0x08 \<or> c = 0x09 \<or> c = 0x0A \<or> c = 0x0C \<or> c = 0x0D \<or> c = 0x22 \<or> c = 0x5C)"
          "\<not> c < 0x20" "\<not> is_leading_surrogate c" "is_trailing_surrogate c"
      | (raw) "\<not> (c = 0x08 \<or> c = 0x09 \<or> c = 0x0A \<or> c = 0x0C \<or> c = 0x0D \<or> c = 0x22 \<or> c = 0x5C)"
          "\<not> c < 0x20" "\<not> is_leading_surrogate c" "\<not> is_trailing_surrogate c"
      by blast
    then have "parse_chars (quote_units (c # cs) @ 0x22 # rest) = Some (c # cs, rest)"
    proof cases
      case esc
      then show ?thesis
        using ih by (elim disjE) (simp_all add: parse_chars_escapes push_unit_def del: parse_chars.simps)
    next
      case ctl
      then have "quote_units (c # cs) = UnicodeEscape c @ quote_units cs" by simp
      then show ?thesis using uni by (simp only:)
    next
      case lead
      show ?thesis
      proof (cases cs)
        case Nil
        then have "quote_units (c # cs) = UnicodeEscape c @ quote_units cs" using lead by simp
        then show ?thesis using uni by (simp only:)
      next
        case (Cons d ds)
        note cs = Cons
        show ?thesis
        proof (cases "is_trailing_surrogate d")
          case True
          have ih2: "parse_chars (quote_units ds @ 0x22 # rest) = Some (ds, rest)"
            using less [of ds] cs \<open>s = c # cs\<close> by simp
          have q: "quote_units (c # cs) = c # d # quote_units ds" using lead cs True by simp
          have "parse_chars (c # d # quote_units ds @ 0x22 # rest) =
                  push_unit c (parse_chars (d # quote_units ds @ 0x22 # rest))"
            using lead by (intro parse_chars_raw) auto
          also have "\<dots> = push_unit c (push_unit d (parse_chars (quote_units ds @ 0x22 # rest)))"
            by (simp only: trailing_surrogate_raw [OF True])
          finally show ?thesis using ih2 q cs by (simp add: push_unit_def del: parse_chars.simps)
        next
          case False
          then have "quote_units (c # cs) = UnicodeEscape c @ quote_units cs" using lead cs by simp
          then show ?thesis using uni by (simp only:)
        qed
      qed
    next
      case trail
      then have "quote_units (c # cs) = UnicodeEscape c @ quote_units cs" by simp
      then show ?thesis using uni by (simp only:)
    next
      case raw
      then have "quote_units (c # cs) = c # quote_units cs" by simp
      moreover have "parse_chars (c # quote_units cs @ 0x22 # rest) =
          push_unit c (parse_chars (quote_units cs @ 0x22 # rest))"
        using raw by (intro parse_chars_raw) auto
      ultimately show ?thesis using step by (simp del: parse_chars.simps)
    qed
    then show ?thesis using Cons by simp
  qed
qed


section \<open>Records and lists written and read back\<close>

lemma skip_ws_Cons: "\<not> is_json_ws c \<Longrightarrow> skip_ws (c # cs) = c # cs"
  by (simp add: skip_ws_def)

lemma Number_toString_head:
  "\<exists>c cs. Number_toString i = c # cs \<and> (c = 0x2D \<or> is_digit c)"
proof (cases "i < 0")
  case True
  then show ?thesis by (simp add: Number_toString_def)
next
  case False
  obtain d ds where dd: "digits_of (nat i) = d # ds"
    using digits_of_not_empty by (cases "digits_of (nat i)") auto
  moreover have "is_digit d" using digits_of_all_digits [of "nat i"] dd by simp
  ultimately show ?thesis using False by (simp add: Number_toString_def)
qed

lemma number_head_plain:
  assumes "c = 0x2D \<or> is_digit c"
  shows "\<not> is_json_ws c" "c \<noteq> 0x5B" "c \<noteq> 0x7B" "c \<noteq> 0x22" "c \<noteq> 0x74" "c \<noteq> 0x66" "c \<noteq> 0x6E"
  using assms by (auto simp: is_json_ws_def is_digit_def)

lemma parse_value_number:
  "parse_value (Suc n) (Number_toString i @ 0x2C # rest) = Got (JNumber i) (0x2C # rest)"
proof -
  obtain c cs where h: "Number_toString i = c # cs" "c = 0x2D \<or> is_digit c"
    using Number_toString_head by blast
  note p = number_head_plain [OF h(2)]
  have pn: "parse_number (c # cs @ 0x2C # rest) = Some (JNumber i, 0x2C # rest)"
    using parse_number_toString [of i rest] h(1) by simp
  show ?thesis
    unfolding h(1) using p by (simp add: skip_ws_Cons lit_def pn)
qed

lemma parse_value_string:
  "parse_value (Suc n) (QuoteJSONString t @ rest) = Got (JString t) rest"
  by (simp add: QuoteJSONString_def skip_ws_Cons is_json_ws_def parse_chars_quote_units
      del: parse_chars.simps)

lemma parse_value_bool:
  "parse_value (Suc n) (lit ''true'' @ rest) = Got (JBool True) rest"
  "parse_value (Suc n) (lit ''false'' @ rest) = Got (JBool False) rest"
  by (simp_all add: lit_def skip_ws_Cons is_json_ws_def)

lemma members_step_more:
  assumes "parse_chars ktext = Some (k, 0x3A # vtext)"
    and "parse_value n vtext = Got v (0x2C # mtext)"
    and "parse_members n mtext = Got ms r"
  shows "parse_members (Suc n) (0x22 # ktext) = Got ((k, v) # ms) r"
  using assms by (simp add: skip_ws_Cons is_json_ws_def del: parse_chars.simps)

lemma members_step_last:
  assumes "parse_chars ktext = Some (k, 0x3A # vtext)"
    and "parse_value n vtext = Got v (0x7D # r)"
  shows "parse_members (Suc n) (0x22 # ktext) = Got [(k, v)] r"
  using assms by (simp add: skip_ws_Cons is_json_ws_def del: parse_chars.simps)

lemma parse_chars_keys:
  "parse_chars (lit ''id'' @ 0x22 # t) = Some (lit ''id'', t)"
  "parse_chars (lit ''title'' @ 0x22 # t) = Some (lit ''title'', t)"
  "parse_chars (lit ''category'' @ 0x22 # t) = Some (lit ''category'', t)"
  "parse_chars (lit ''saved'' @ 0x22 # t) = Some (lit ''saved'', t)"
  by (simp_all add: lit_def push_unit_def)

lemma parse_value_saved:
  "parse_value (Suc n) ((if b then lit ''true'' else lit ''false'') @ t) = Got (JBool b) t"
  by (cases b) (simp_all add: parse_value_bool del: parse_value.simps)

lemma make_object_opportunity:
  "make_object [(lit ''id'', a), (lit ''title'', b), (lit ''category'', c), (lit ''saved'', d)] =
     JObject [(lit ''id'', a), (lit ''title'', b), (lit ''category'', c), (lit ''saved'', d)]"
  by (simp add: make_object_def lit_def)

lemma parse_value_opportunity:
  "parse_value (Suc (Suc (Suc (Suc (Suc (Suc n)))))) (stringify_opportunity r @ rest) =
     Got (js_of_opportunity r) rest"
proof -
  define t4 where "t4 = lit ''saved'' @ 0x22 # 0x3A # (if saved r then lit ''true'' else lit ''false'') @ 0x7D # rest"
  define t3 where "t3 = lit ''category'' @ 0x22 # 0x3A # QuoteJSONString (category r) @ 0x2C # 0x22 # t4"
  define t2 where "t2 = lit ''title'' @ 0x22 # 0x3A # QuoteJSONString (title r) @ 0x2C # 0x22 # t3"
  define t1 where "t1 = lit ''id'' @ 0x22 # 0x3A # Number_toString (id_num r) @ 0x2C # 0x22 # t2"
  have shape: "stringify_opportunity r @ rest = 0x7B # 0x22 # t1"
    by (simp add: stringify_opportunity_def t1_def t2_def t3_def t4_def lit_def)
  have m4: "parse_members (Suc (Suc n)) (0x22 # t4) = Got [(lit ''saved'', JBool (saved r))] rest"
    unfolding t4_def by (rule members_step_last [OF parse_chars_keys(4) parse_value_saved])
  have m3: "parse_members (Suc (Suc (Suc n))) (0x22 # t3) =
      Got [(lit ''category'', JString (category r)), (lit ''saved'', JBool (saved r))] rest"
    unfolding t3_def by (rule members_step_more [OF parse_chars_keys(3) parse_value_string m4])
  have m2: "parse_members (Suc (Suc (Suc (Suc n)))) (0x22 # t2) =
      Got [(lit ''title'', JString (title r)), (lit ''category'', JString (category r)),
           (lit ''saved'', JBool (saved r))] rest"
    unfolding t2_def by (rule members_step_more [OF parse_chars_keys(2) parse_value_string m3])
  have m1: "parse_members (Suc (Suc (Suc (Suc (Suc n))))) (0x22 # t1) =
      Got [(lit ''id'', JNumber (id_num r)), (lit ''title'', JString (title r)),
           (lit ''category'', JString (category r)), (lit ''saved'', JBool (saved r))] rest"
    unfolding t1_def by (rule members_step_more [OF parse_chars_keys(1) parse_value_number m2])
  show ?thesis
    unfolding shape
    by (simp add: m1 skip_ws_Cons is_json_ws_def make_object_opportunity js_of_opportunity_def
        del: parse_members.simps)
qed

lemma opportunity_of_js_of: "opportunity_of_js (js_of_opportunity r) = Some r"
  by (simp add: opportunity_of_js_def js_of_opportunity_def)

lemma opportunities_of_js_of: "opportunities_of_js (JArray (map js_of_opportunity L)) = Some L"
  by (induction L) (simp_all add: opportunities_of_js_def opportunity_of_js_of)

lemma parse_value_opportunity_fuel:
  assumes "6 \<le> m"
  shows "parse_value m (stringify_opportunity r @ rest) = Got (js_of_opportunity r) rest"
proof -
  have "m = Suc (Suc (Suc (Suc (Suc (Suc (m - 6))))))"
    using assms by arith
  then show ?thesis by (metis parse_value_opportunity)
qed

lemma parse_elements_opportunities:
  "L \<noteq> [] \<Longrightarrow> length L + 6 \<le> n \<Longrightarrow>
   parse_elements n (join_comma (map stringify_opportunity L) @ 0x5D # rest) =
     Got (map js_of_opportunity L) rest"
proof (induction L arbitrary: n)
  case Nil
  then show ?case by simp
next
  case (Cons r rs)
  then obtain m where n: "n = Suc m" "length rs + 6 \<le> m"
    by (cases n) auto
  then have m6: "6 \<le> m" by simp
  show ?case
  proof (cases rs)
    case Nil
    then show ?thesis
      unfolding n(1)
      by (simp add: parse_value_opportunity_fuel [OF m6] skip_ws_Cons is_json_ws_def
          del: parse_value.simps)
  next
    case (Cons r' rs')
    have ih: "parse_elements m (join_comma (map stringify_opportunity rs) @ 0x5D # rest) =
        Got (map js_of_opportunity rs) rest"
      using Cons.IH [of m] n(2) Cons by simp
    have j: "join_comma (map stringify_opportunity (r # rs)) @ 0x5D # rest =
        stringify_opportunity r @ 0x2C # (join_comma (map stringify_opportunity rs) @ 0x5D # rest)"
      using Cons by simp
    show ?thesis
      unfolding n(1) j
      by (simp add: parse_value_opportunity_fuel [OF m6] skip_ws_Cons is_json_ws_def ih
          del: parse_value.simps)
  qed
qed

lemma stringify_opportunity_head: "\<exists>t. stringify_opportunity r = 0x7B # 0x22 # t"
  by (simp add: stringify_opportunity_def lit_def)

lemma join_comma_head:
  "\<exists>t. join_comma (map stringify_opportunity (r # rs)) = 0x7B # 0x22 # t"
proof -
  obtain t where t: "stringify_opportunity r = 0x7B # 0x22 # t"
    using stringify_opportunity_head by blast
  show ?thesis by (cases rs) (simp_all add: t)
qed

lemma join_comma_length:
  "\<forall>x\<in>set xs. 2 \<le> length x \<Longrightarrow> 2 * length xs \<le> length (join_comma xs)"
  by (induction xs rule: join_comma.induct) simp_all

lemma JSON_stringify_length: "2 * length L + 2 \<le> length (JSON_stringify L)"
proof -
  have "2 \<le> length (stringify_opportunity r)" for r
    using stringify_opportunity_head [of r] by auto
  then have "\<forall>x\<in>set (map stringify_opportunity L). 2 \<le> length x"
    by simp
  then have "2 * length (map stringify_opportunity L) \<le> length (join_comma (map stringify_opportunity L))"
    by (rule join_comma_length)
  then show ?thesis by (simp add: JSON_stringify_def)
qed

lemma parse_value_JSON_stringify:
  assumes "length L + 7 \<le> n"
  shows "parse_value n (JSON_stringify L) = Got (JArray (map js_of_opportunity L)) []"
proof -
  obtain m where n: "n = Suc m" "length L + 6 \<le> m"
    using assms by (cases n) auto
  show ?thesis
  proof (cases L)
    case Nil
    then show ?thesis
      unfolding n(1) by (simp add: JSON_stringify_def skip_ws_Cons is_json_ws_def)
  next
    case (Cons r rs)
    obtain t where t: "join_comma (map stringify_opportunity (r # rs)) = 0x7B # 0x22 # t"
      using join_comma_head by blast
    have el: "parse_elements m (join_comma (map stringify_opportunity L) @ [0x5D]) =
        Got (map js_of_opportunity L) []"
      using parse_elements_opportunities [of L m "[]"] n(2) Cons by simp
    have sk: "skip_ws (join_comma (map stringify_opportunity L) @ [0x5D]) = 0x7B # 0x22 # t @ [0x5D]"
      using t Cons by (simp add: skip_ws_Cons is_json_ws_def)
    show ?thesis
      unfolding n(1) by (simp add: JSON_stringify_def skip_ws_Cons is_json_ws_def sk el
          del: parse_elements.simps)
  qed
qed

lemma parse_value_empty_array: "parse_value (Suc n) (JSON_stringify []) = Got (JArray []) []"
  by (simp add: JSON_stringify_def skip_ws_Cons is_json_ws_def)

lemma JSON_parse_stringify:
  "JSON_parse (JSON_stringify L) = Some (JArray (map js_of_opportunity L))"
proof (cases L)
  case Nil
  have "2 * length (JSON_stringify []) + 1 = Suc (2 * length (JSON_stringify []))" by simp
  then show ?thesis
    unfolding Nil JSON_parse_def
    by (simp only: parse_value_empty_array) (simp add: skip_ws_def)
next
  case (Cons r rs)
  then have "length L + 7 \<le> 2 * length (JSON_stringify L) + 1"
    using JSON_stringify_length [of L] by simp
  then have "parse_value (2 * length (JSON_stringify L) + 1) (JSON_stringify L) =
      Got (JArray (map js_of_opportunity L)) []"
    by (rule parse_value_JSON_stringify)
  then show ?thesis
    unfolding JSON_parse_def by (simp add: skip_ws_def del: parse_value.simps)
qed

lemma JSON_stringify_not_empty: "JSON_stringify L \<noteq> []"
  by (simp add: JSON_stringify_def)


section \<open>The parser consumes its input and never runs out of budget\<close>

lemma skip_ws_length: "length (skip_ws s) \<le> length s"
  by (simp add: skip_ws_def length_dropWhile_le)

lemma skip_ws_shorter: "skip_ws s = c # cs \<Longrightarrow> length cs < length s"
  using skip_ws_length [of s] by simp

lemma push_unit_Some: "push_unit u res = Some (str, r) \<Longrightarrow> \<exists>str'. res = Some (str', r)"
  by (auto simp: push_unit_def split: option.splits)

lemma parse_chars_shorter: "parse_chars s = Some (str, r) \<Longrightarrow> length r < length s"
proof (induction "length s" arbitrary: s str rule: less_induct)
  case less
  show ?case
  proof (cases s)
    case Nil
    with less.prems show ?thesis by simp
  next
    case (Cons c cs)
    have ih: "\<And>t str'. length t \<le> length cs \<Longrightarrow> parse_chars t = Some (str', r) \<Longrightarrow> length r < length t"
      using less.hyps Cons by simp
    show ?thesis
      using less.prems unfolding Cons
      by (auto simp: Let_def split: if_splits list.splits option.splits
          dest!: push_unit_Some dest: ih [rotated] simp del: parse_chars.simps
          simp add: parse_chars.simps(2) [of c cs])
  qed
qed


lemma int_part_shorter: "int_part s = Some (ds, r) \<Longrightarrow> length r < length s"
  by (auto simp: int_part_def less_Suc_eq_le length_dropWhile_le split: list.splits if_splits)

lemma frac_part_length: "frac_part s = Some (b, r) \<Longrightarrow> length r \<le> length s"
  by (auto simp: frac_part_def le_SucI length_dropWhile_le split: list.splits if_splits)

lemma exp_part_length: "exp_part s = Some (b, r) \<Longrightarrow> length r \<le> length s"
proof (cases s)
  case Nil
  assume "exp_part s = Some (b, r)"
  with Nil show ?thesis by (simp add: exp_part_def)
next
  case (Cons c cs)
  assume a: "exp_part s = Some (b, r)"
  show ?thesis
  proof (cases "c = 0x65 \<or> c = 0x45")
    case False
    with a Cons show ?thesis by (auto simp: exp_part_def)
  next
    case True
    define ds where "ds = (case cs of [] \<Rightarrow> cs | g # gs \<Rightarrow> if g = 0x2B \<or> g = 0x2D then gs else cs)"
    have "length ds \<le> length cs" by (auto simp: ds_def split: list.splits)
    moreover have "r = dropWhile is_digit ds"
      using a Cons True by (auto simp: exp_part_def Let_def ds_def split: if_splits)
    moreover have "length (dropWhile is_digit ds) \<le> length ds" by (rule length_dropWhile_le)
    ultimately show ?thesis using Cons by simp
  qed
qed

lemma parse_number_shorter: "parse_number s = Some (v, r) \<Longrightarrow> length r < length s"
proof -
  assume a: "parse_number s = Some (v, r)"
  define s1 where "s1 = (if (case s of [] \<Rightarrow> False | c # cs \<Rightarrow> c = 0x2D) then tl s else s)"
  have s1: "length s1 \<le> length s" by (simp add: s1_def)
  from a obtain ds r1 hf r2 he where
    p: "int_part s1 = Some (ds, r1)" "frac_part r1 = Some (hf, r2)" "exp_part r2 = Some (he, r)"
    by (auto simp: parse_number_def Let_def s1_def split: option.splits if_splits)
  from int_part_shorter [OF p(1)] frac_part_length [OF p(2)] exp_part_length [OF p(3)] s1
  show ?thesis by simp
qed

lemma parse_value_Suc_shorter:
  assumes el: "\<And>t vs r. parse_elements n t = Got vs r \<Longrightarrow> length r < length t"
    and me: "\<And>t ms r. parse_members n t = Got ms r \<Longrightarrow> length r < length t"
    and pv: "parse_value (Suc n) s = Got v r"
  shows "length r < length s"
proof (cases "skip_ws s")
  case Nil
  with pv show ?thesis by simp
next
  case (Cons c cs)
  have cs: "length cs < length s" using Cons by (rule skip_ws_shorter)
  have sk: "\<And>d ds. skip_ws cs = d # ds \<Longrightarrow> length ds < length s"
    using skip_ws_shorter cs by fastforce
  have dr: "\<And>k. length (drop k (c # cs)) \<le> length s"
    using cs by simp
  consider (arr) "c = 0x5B" | (obj) "c \<noteq> 0x5B" "c = 0x7B" | (str) "c \<noteq> 0x5B" "c \<noteq> 0x7B" "c = 0x22"
    | (other) "c \<noteq> 0x5B" "c \<noteq> 0x7B" "c \<noteq> 0x22"
    by blast
  then show ?thesis
  proof cases
    case arr
    with pv Cons show ?thesis
      using cs by (auto split: list.splits if_splits parse.splits dest: sk dest!: el)
  next
    case obj
    with pv Cons show ?thesis
      using cs by (auto split: list.splits if_splits parse.splits dest: sk dest!: me)
  next
    case str
    with pv Cons show ?thesis
      using cs by (auto split: option.splits dest!: parse_chars_shorter simp del: parse_chars.simps)
  next
    case other
    have "length (drop 4 (c # cs)) < length s" "length (drop 5 (c # cs)) < length s"
      using cs by simp_all
    with other pv Cons show ?thesis
      using cs
      by (auto split: option.splits if_splits dest!: parse_number_shorter simp del: drop_Suc_Cons)
  qed
qed


lemma parse_elements_Suc_shorter:
  assumes va: "\<And>t v r. parse_value n t = Got v r \<Longrightarrow> length r < length t"
    and el: "\<And>t vs r. parse_elements n t = Got vs r \<Longrightarrow> length r < length t"
    and pe: "parse_elements (Suc n) s = Got vs r"
  shows "length r < length s"
proof -
  from pe obtain v r1 c cs where
    p: "parse_value n s = Got v r1" "skip_ws r1 = c # cs"
    by (auto split: parse.splits list.splits)
  have r1: "length r1 < length s" using p(1) by (rule va)
  have cs: "length cs < length r1" using p(2) by (rule skip_ws_shorter)
  from pe p have "(c = 0x2C \<and> (\<exists>vs'. parse_elements n cs = Got vs' r)) \<or> r = cs"
    by (auto split: parse.splits if_splits)
  then show ?thesis using el r1 cs by fastforce
qed

lemma parse_members_Suc_shorter:
  assumes va: "\<And>t v r. parse_value n t = Got v r \<Longrightarrow> length r < length t"
    and me: "\<And>t ms r. parse_members n t = Got ms r \<Longrightarrow> length r < length t"
    and pm: "parse_members (Suc n) s = Got ms r"
  shows "length r < length s"
proof -
  from pm obtain q cs key r0 c r1 v r2 d r3 where
    p: "skip_ws s = q # cs" "parse_chars cs = Some (key, r0)" "skip_ws r0 = c # r1"
       "parse_value n r1 = Got v r2" "skip_ws r2 = d # r3"
    by (auto split: parse.splits list.splits if_splits option.splits simp del: parse_chars.simps)
  have l: "length cs < length s" "length r0 < length cs" "length r1 < length r0"
      "length r2 < length r1" "length r3 < length r2"
    using p skip_ws_shorter parse_chars_shorter va by blast+
  from pm p have "(d = 0x2C \<and> (\<exists>ms'. parse_members n r3 = Got ms' r)) \<or> r = r3"
    by (auto split: parse.splits if_splits simp del: parse_chars.simps)
  then show ?thesis using me l by fastforce
qed

lemma parse_shorter:
  "(\<forall>s v r. parse_value n s = Got v r \<longrightarrow> length r < length s) \<and>
   (\<forall>s vs r. parse_elements n s = Got vs r \<longrightarrow> length r < length s) \<and>
   (\<forall>s ms r. parse_members n s = Got ms r \<longrightarrow> length r < length s)"
proof (induction n)
  case 0
  show ?case by simp
next
  case (Suc n)
  then have va: "\<And>t v r. parse_value n t = Got v r \<Longrightarrow> length r < length t"
    and el: "\<And>t vs r. parse_elements n t = Got vs r \<Longrightarrow> length r < length t"
    and me: "\<And>t ms r. parse_members n t = Got ms r \<Longrightarrow> length r < length t"
    by blast+
  show ?case
  proof (intro conjI allI impI)
    fix s v r
    assume "parse_value (Suc n) s = Got v r"
    with el me show "length r < length s" by (rule parse_value_Suc_shorter)
  next
    fix s vs r
    assume "parse_elements (Suc n) s = Got vs r"
    with va el show "length r < length s" by (rule parse_elements_Suc_shorter)
  next
    fix s ms r
    assume "parse_members (Suc n) s = Got ms r"
    with va me show "length r < length s" by (rule parse_members_Suc_shorter)
  qed
qed

lemma parse_value_shorter: "parse_value n s = Got v r \<Longrightarrow> length r < length s"
  using parse_shorter by blast

lemma parse_elements_shorter: "parse_elements n s = Got vs r \<Longrightarrow> length r < length s"
  using parse_shorter by blast

lemma parse_members_shorter: "parse_members n s = Got ms r \<Longrightarrow> length r < length s"
  using parse_shorter by blast

lemma parse_value_Suc_fuel:
  assumes el: "\<And>t. 2 * length t + 1 < n \<Longrightarrow> parse_elements n t \<noteq> Fuel"
    and me: "\<And>t. 2 * length t + 1 < n \<Longrightarrow> parse_members n t \<noteq> Fuel"
    and n: "2 * length s < Suc n"
  shows "parse_value (Suc n) s \<noteq> Fuel"
proof (cases "skip_ws s")
  case Nil
  then show ?thesis by simp
next
  case (Cons c cs)
  have "length cs < length s" using Cons by (rule skip_ws_shorter)
  then have "2 * length cs + 1 < n" using n by simp
  then have "parse_elements n cs \<noteq> Fuel" "parse_members n cs \<noteq> Fuel"
    using el me by blast+
  then show ?thesis
    using Cons by (auto split: list.splits parse.splits option.splits simp del: parse_chars.simps)
qed

lemma parse_elements_Suc_fuel:
  assumes va: "\<And>t. 2 * length t < n \<Longrightarrow> parse_value n t \<noteq> Fuel"
    and el: "\<And>t. 2 * length t + 1 < n \<Longrightarrow> parse_elements n t \<noteq> Fuel"
    and n: "2 * length s + 1 < Suc n"
  shows "parse_elements (Suc n) s \<noteq> Fuel"
proof (cases "parse_value n s")
  case Fuel
  moreover have "parse_value n s \<noteq> Fuel" using n by (intro va) simp
  ultimately show ?thesis by simp
next
  case Bad
  then show ?thesis by simp
next
  case (Got v r)
  have r: "length r < length s" using Got by (rule parse_value_shorter)
  show ?thesis
  proof (cases "skip_ws r")
    case Nil
    with Got show ?thesis by simp
  next
    case (Cons c cs)
    have "length cs < length r" using Cons by (rule skip_ws_shorter)
    then have "parse_elements n cs \<noteq> Fuel" using r n by (intro el) simp
    then show ?thesis using Got Cons by (auto split: parse.splits)
  qed
qed

lemma parse_members_Suc_fuel:
  assumes va: "\<And>t. 2 * length t < n \<Longrightarrow> parse_value n t \<noteq> Fuel"
    and me: "\<And>t. 2 * length t + 1 < n \<Longrightarrow> parse_members n t \<noteq> Fuel"
    and n: "2 * length s + 1 < Suc n"
  shows "parse_members (Suc n) s \<noteq> Fuel"
proof
  assume f: "parse_members (Suc n) s = Fuel"
  then obtain q cs key r0 c r1 where
    p: "skip_ws s = q # cs" "parse_chars cs = Some (key, r0)" "skip_ws r0 = c # r1"
    by (auto split: parse.splits list.splits if_splits option.splits simp del: parse_chars.simps)
  have l: "length cs < length s" "length r0 < length cs" "length r1 < length r0"
    using p skip_ws_shorter parse_chars_shorter by blast+
  then have v: "parse_value n r1 \<noteq> Fuel" using n by (intro va) simp
  from f p v obtain v' r2 d r3 where
    p2: "parse_value n r1 = Got v' r2" "skip_ws r2 = d # r3" "parse_members n r3 = Fuel"
    by (auto split: parse.splits list.splits if_splits simp del: parse_chars.simps)
  have "length r2 < length r1" "length r3 < length r2"
    using p2 skip_ws_shorter parse_value_shorter by blast+
  then have "parse_members n r3 \<noteq> Fuel" using l n by (intro me) simp
  with p2(3) show False by simp
qed

lemma parse_fuel:
  "(\<forall>s. 2 * length s < n \<longrightarrow> parse_value n s \<noteq> Fuel) \<and>
   (\<forall>s. 2 * length s + 1 < n \<longrightarrow> parse_elements n s \<noteq> Fuel) \<and>
   (\<forall>s. 2 * length s + 1 < n \<longrightarrow> parse_members n s \<noteq> Fuel)"
proof (induction n)
  case 0
  show ?case by simp
next
  case (Suc n)
  then have va: "\<And>t. 2 * length t < n \<Longrightarrow> parse_value n t \<noteq> Fuel"
    and el: "\<And>t. 2 * length t + 1 < n \<Longrightarrow> parse_elements n t \<noteq> Fuel"
    and me: "\<And>t. 2 * length t + 1 < n \<Longrightarrow> parse_members n t \<noteq> Fuel"
    by blast+
  show ?case
  proof (intro conjI allI impI)
    fix s :: js_string
    assume "2 * length s < Suc n"
    with el me show "parse_value (Suc n) s \<noteq> Fuel" by (rule parse_value_Suc_fuel)
  next
    fix s :: js_string
    assume "2 * length s + 1 < Suc n"
    with va el show "parse_elements (Suc n) s \<noteq> Fuel" by (rule parse_elements_Suc_fuel)
  next
    fix s :: js_string
    assume "2 * length s + 1 < Suc n"
    with va me show "parse_members (Suc n) s \<noteq> Fuel" by (rule parse_members_Suc_fuel)
  qed
qed

lemma parse_value_fuel: "parse_value (2 * length s + 1) s \<noteq> Fuel"
  using parse_fuel [of "2 * length s + 1"] by simp

lemma JSON_parse_None_iff:
  "JSON_parse s = None \<longleftrightarrow>
     parse_value (2 * length s + 1) s = Bad \<or>
     (\<exists>v r. parse_value (2 * length s + 1) s = Got v r \<and> skip_ws r \<noteq> [])"
  using parse_value_fuel [of s]
  by (cases "parse_value (2 * length s + 1) s") (auto simp: JSON_parse_def simp del: parse_value.simps)


section \<open>Loading\<close>

lemma parse_examples:
  "JSON_parse (lit ''not json'') = None"
  "JSON_parse (lit ''[1]'') = Some (JArray [JNumber 1])"
  "opportunities_of_js (JArray [JNumber 1]) = None"
  "JSON_parse (lit ''{'') = None"
  "parse_value (2 * length (lit ''not json'') + 1) (lit ''not json'') = Bad"
  by code_simp+

lemma stringify_example:
  \<open>JSON_stringify [example_record] =
     lit ''[{"id":42,"title":"Research Grant","category":"Scholarship","saved":false}]''\<close>
  by code_simp

text \<open>
  C5. Reading back what \<open>saveToStorage\<close> wrote gives the list that was saved, with the
  order of the records and every field as they were: \<open>JSON.parse\<close> of the serialised list
  is the array of the records' objects, which reads as the list itself, and
  \<open>loadFromStorage\<close> on the item \<open>saveToStorage\<close> wrote (in the same state or in a fresh
  one) returns that list.
\<close>

theorem storage_round_trip:
  "JSON_parse (JSON_stringify L) = Some (JArray (map js_of_opportunity L)) \<and>
   opportunities_of_js (JArray (map js_of_opportunity L)) = Some L \<and>
   loadFromStorage (saveToStorage s) = Inr (saveToStorage s) \<and>
   loadFromStorage (t\<lparr>storage := storage (saveToStorage s)\<rparr>) =
     Inr (t\<lparr>storage := storage (saveToStorage s), opportunities := opportunities s\<rparr>)"
  by (simp add: JSON_parse_stringify opportunities_of_js_of loadFromStorage_def saveToStorage_def
      JSON_stringify_not_empty)

text \<open>
  C2, as the code has it. When nothing is stored, or the empty string, \<open>loadFromStorage\<close>
  leaves the list as it is (empty at start-up) and \<open>init\<close> completes. When the item is a
  serialised list, that list is loaded and \<open>init\<close> completes. When the item is not JSON
  text, \<open>JSON.parse\<close> throws and \<open>init\<close> ends with the \<open>SyntaxError\<close>: no listener is
  attached and nothing is rendered. When the item is JSON of another shape, the parsed value
  is assigned to the list unchecked.
\<close>

theorem load_cases:
  "(storage s = None \<or> storage s = Some [] \<longrightarrow>
      loadFromStorage s = Inr s \<and> init s = Inr (render (setupEventListeners s))) \<and>
   (storage s = Some (JSON_stringify L) \<longrightarrow>
      loadFromStorage s = Inr (s\<lparr>opportunities := L\<rparr>) \<and>
      init s = Inr (render (setupEventListeners (s\<lparr>opportunities := L\<rparr>)))) \<and>
   (storage s = Some text \<and> text \<noteq> [] \<and> JSON_parse text = None \<longrightarrow>
      loadFromStorage s = Inl SyntaxError \<and> init s = Inl SyntaxError) \<and>
   (storage s = Some text \<and> text \<noteq> [] \<and> JSON_parse text = Some v \<and> opportunities_of_js v = None \<longrightarrow>
      loadFromStorage s = Inl (Untyped v))"
  by (auto simp: loadFromStorage_def init_def JSON_parse_stringify opportunities_of_js_of
      JSON_stringify_not_empty)

theorem load_cases_witness:
  "storage example_page = None \<and>
   loadFromStorage example_page = Inr example_page \<and>
   storage (example_page\<lparr>storage := Some (JSON_stringify [example_record])\<rparr>) =
     Some (JSON_stringify [example_record]) \<and>
   loadFromStorage (example_page\<lparr>storage := Some (JSON_stringify [example_record])\<rparr>) =
     Inr (example_page\<lparr>storage := Some (JSON_stringify [example_record]),
                       opportunities := [example_record]\<rparr>) \<and>
   storage (example_page\<lparr>storage := Some (lit ''{'')\<rparr>) = Some (lit ''{'') \<and>
   lit ''{'' \<noteq> [] \<and> JSON_parse (lit ''{'') = None \<and>
   init (example_page\<lparr>storage := Some (lit ''{'')\<rparr>) = Inl SyntaxError \<and>
   storage (example_page\<lparr>storage := Some (lit ''[1]'')\<rparr>) = Some (lit ''[1]'') \<and>
   lit ''[1]'' \<noteq> [] \<and> JSON_parse (lit ''[1]'') = Some (JArray [JNumber 1]) \<and>
   opportunities_of_js (JArray [JNumber 1]) = None \<and>
   loadFromStorage (example_page\<lparr>storage := Some (lit ''[1]'')\<rparr>) = Inl (Untyped (JArray [JNumber 1]))"
proof -
  have h1: "storage example_page = None" by (simp add: example_page_def)
  show ?thesis
    using h1
      load_cases [of example_page "[]" "[]" JNull]
      load_cases [of "example_page\<lparr>storage := Some (JSON_stringify [example_record])\<rparr>"
                     "[example_record]" "[]" JNull]
      load_cases [of "example_page\<lparr>storage := Some (lit ''{'')\<rparr>" "[]" "lit ''{''" JNull]
      load_cases [of "example_page\<lparr>storage := Some (lit ''[1]'')\<rparr>" "[]" "lit ''[1]''"
                     "JArray [JNumber 1]"]
    by (simp add: parse_examples lit_not_empty)
qed

text \<open>
  C2, as stated, fails: with the item \<open>not json\<close> in storage, \<open>init\<close> does not complete
  with an empty list, it ends with the \<open>SyntaxError\<close> of \<open>JSON.parse\<close>.
\<close>

theorem load_not_json:
  "init (example_page\<lparr>storage := Some (lit ''not json'')\<rparr>) = Inl SyntaxError"
  by (simp add: init_def loadFromStorage_def parse_examples lit_not_empty)

end
